theory Spec2Isabelle
  imports Main "HOL-Library.Word"
begin

section \<open>Values of the platform\<close>

text \<open>
  An \<open>ArrayBuffer\<close> or \<open>Uint8Array\<close> is its list of bytes. A JavaScript string is its
  list of UTF-16 code units; a "binary string" is one whose code units are all below 256.
\<close>

type_synonym byte = "8 word"
type_synonym bytes = "byte list"
type_synonym codeunit = "16 word"
type_synonym jsstring = "codeunit list"

text \<open>
  Everything the source throws. The constructors named after a message stand for
  \<open>new Error(message)\<close>, whose \<open>name\<close> is \<open>Error\<close> (the messages are Portuguese, written
  here without their accents); \<open>PlatformError n\<close> is an exception
  thrown by the platform, whose \<open>name\<close> is \<open>n\<close> (\<open>InvalidCharacterError\<close> from \<open>atob\<close>,
  \<open>OperationError\<close> and \<open>DataError\<close> from \<open>crypto.subtle\<close>, \<open>SyntaxError\<close> from \<open>JSON.parse\<close>,
  \<open>TypeError\<close>). \<open>Falha_ao_decifrar_chave_privada e\<close> is
  \<open>new Error("Falha ao decifrar chave privada: " + e.message)\<close>.
\<close>

datatype js_error =
    Buffer_vazio
  | Base64_invalido
  | Falha_na_descriptografia
  | Senha_incorreta
  | Falha_ao_decifrar_chave_privada js_error
  | Formato_de_chave_cifrada_invalido
  | Erro_ao_buscar_destinatario
  | Destinatario_nao_possui_chave_publica
  | Minha_chave_publica_nao_disponivel
  | PlatformError string

text \<open>Sequencing of steps that may throw, and \<open>try\<close>/\<open>catch\<close>.\<close>

fun andThen :: "js_error + 'a \<Rightarrow> ('a \<Rightarrow> js_error + 'b) \<Rightarrow> js_error + 'b" where
  "andThen (Inl e) f = Inl e"
| "andThen (Inr x) f = f x"

fun catch :: "js_error + 'a \<Rightarrow> (js_error \<Rightarrow> js_error + 'a) \<Rightarrow> js_error + 'a" where
  "catch (Inl e) h = h e"
| "catch (Inr x) h = Inr x"

text \<open>The same for steps that also advance the state of the random generator.\<close>

fun andThenS ::
  "(js_error + 'a) \<times> 's \<Rightarrow> ('a \<Rightarrow> 's \<Rightarrow> (js_error + 'b) \<times> 's) \<Rightarrow> (js_error + 'b) \<times> 's" where
  "andThenS (Inl e, s) f = (Inl e, s)"
| "andThenS (Inr x, s) f = f x s"

fun error_name :: "js_error \<Rightarrow> string" where
  "error_name (PlatformError n) = n"
| "error_name _ = ''Error''"

section \<open>Transcoder: \<open>btoa\<close>, \<open>atob\<close> and the two conversions of \<open>CryptoService\<close>\<close>

definition b64_pad :: codeunit where
  "b64_pad = 61"

definition b64_char :: "nat \<Rightarrow> codeunit" where
  "b64_char n =
     (if n < 26 then of_nat (65 + n)
      else if n < 52 then of_nat (97 + (n - 26))
      else if n < 62 then of_nat (48 + (n - 52))
      else if n = 62 then 43
      else 47)"

definition b64_index :: "codeunit \<Rightarrow> nat option" where
  "b64_index u =
     (let c = unat u in
      if 65 \<le> c \<and> c \<le> 90 then Some (c - 65)
      else if 97 \<le> c \<and> c \<le> 122 then Some (c - 71)
      else if 48 \<le> c \<and> c \<le> 57 then Some (c + 4)
      else if c = 43 then Some 62
      else if c = 47 then Some 63
      else None)"

text \<open>The 6-bit groups of a byte sequence, three bytes at a time (RFC 4648, section 4).\<close>

fun b64_sextets :: "bytes \<Rightarrow> nat list" where
  "b64_sextets (a # b # c # rest) =
     [unat a div 4, (unat a mod 4) * 16 + unat b div 16,
      (unat b mod 16) * 4 + unat c div 64, unat c mod 64] @ b64_sextets rest"
| "b64_sextets [a, b] =
     [unat a div 4, (unat a mod 4) * 16 + unat b div 16, (unat b mod 16) * 4]"
| "b64_sextets [a] = [unat a div 4, (unat a mod 4) * 16]"
| "b64_sextets [] = []"

fun b64_padding :: "bytes \<Rightarrow> jsstring" where
  "b64_padding (a # b # c # rest) = b64_padding rest"
| "b64_padding [a, b] = [b64_pad]"
| "b64_padding [a] = [b64_pad, b64_pad]"
| "b64_padding [] = []"

definition b64_encode :: "bytes \<Rightarrow> jsstring" where
  "b64_encode b = map b64_char (b64_sextets b) @ b64_padding b"

text \<open>
  \<open>btoa\<close>: a code unit above 255 is an \<open>InvalidCharacterError\<close>; otherwise the string is
  taken as bytes and encoded.
\<close>

definition btoa :: "jsstring \<Rightarrow> js_error + jsstring" where
  "btoa s =
     (if list_ex (\<lambda>c. 255 < unat c) s then Inl (PlatformError ''InvalidCharacterError'')
      else Inr (b64_encode (map ucast s)))"

text \<open>
  \<open>atob\<close> is the forgiving-base64 decode of the platform: ASCII whitespace is removed; when
  the length is then a multiple of four, one or two trailing \<open>=\<close> are removed; a length
  that leaves remainder one, or a character outside the alphabet, is an
  \<open>InvalidCharacterError\<close>; the 6-bit groups are decoded, the bits of an incomplete last
  group being dropped.
\<close>

definition ascii_whitespace :: "codeunit \<Rightarrow> bool" where
  "ascii_whitespace c \<longleftrightarrow> c = 9 \<or> c = 10 \<or> c = 12 \<or> c = 13 \<or> c = 32"

definition strip_pad :: "jsstring \<Rightarrow> jsstring" where
  "strip_pad d =
     (if d \<noteq> [] \<and> last d = b64_pad then
        (let d1 = butlast d in if d1 \<noteq> [] \<and> last d1 = b64_pad then butlast d1 else d1)
      else d)"

fun b64_groups :: "nat list \<Rightarrow> bytes" where
  "b64_groups (p # q # r # s # rest) =
     [of_nat (p * 4 + q div 16), of_nat ((q mod 16) * 16 + r div 4),
      of_nat ((r mod 4) * 64 + s)] @ b64_groups rest"
| "b64_groups [p, q, r] = [of_nat (p * 4 + q div 16), of_nat ((q mod 16) * 16 + r div 4)]"
| "b64_groups [p, q] = [of_nat (p * 4 + q div 16)]"
| "b64_groups _ = []"

definition atob :: "jsstring \<Rightarrow> js_error + jsstring" where
  "atob s =
     (let d = filter (\<lambda>c. \<not> ascii_whitespace c) s;
          d' = (if length d mod 4 = 0 then strip_pad d else d)
      in if length d' mod 4 = 1 then Inl (PlatformError ''InvalidCharacterError'')
         else (case those (map b64_index d') of
                 None \<Rightarrow> Inl (PlatformError ''InvalidCharacterError'')
               | Some sx \<Rightarrow> Inr (map ucast (b64_groups sx))))"

text \<open>
  \<open>CryptoService.arrayBufferToBase64\<close>: an empty buffer throws; otherwise every byte becomes
  a character (\<open>String.fromCharCode\<close>) and the binary string goes through \<open>btoa\<close>. The
  \<open>catch\<close> logs and rethrows.
\<close>

definition arrayBufferToBase64 :: "bytes \<Rightarrow> js_error + jsstring" where
  "arrayBufferToBase64 buffer =
     (if buffer = [] then Inl Buffer_vazio
      else btoa (map ucast buffer))"

text \<open>
  \<open>CryptoService.base64ToArrayBuffer\<close>: an empty string is falsy and throws; otherwise
  \<open>atob\<close>, and every \<open>charCodeAt\<close> is stored into a \<open>Uint8Array\<close>.
\<close>

definition base64ToArrayBuffer :: "jsstring \<Rightarrow> js_error + bytes" where
  "base64ToArrayBuffer base64 =
     (if base64 = [] then Inl Base64_invalido
      else (case atob base64 of
              Inl e \<Rightarrow> Inl e
            | Inr binary \<Rightarrow> Inr (map ucast binary)))"

section \<open>Text codec: \<open>TextEncoder\<close> and \<open>TextDecoder\<close>\<close>

text \<open>
  A string literal of the source, as code units (the literals used are ASCII).
\<close>

definition js :: "string \<Rightarrow> jsstring" where
  "js s = map (\<lambda>c. of_nat (of_char c)) s"

text \<open>
  \<open>new TextEncoder().encode(s)\<close>: the string is first converted to scalar values (a
  surrogate pair becomes one code point, an unpaired surrogate becomes U+FFFD), which are
  then encoded in UTF-8.
\<close>

definition high_surrogate :: "codeunit \<Rightarrow> bool" where
  "high_surrogate c \<longleftrightarrow> 0xD800 \<le> unat c \<and> unat c \<le> 0xDBFF"

definition low_surrogate :: "codeunit \<Rightarrow> bool" where
  "low_surrogate c \<longleftrightarrow> 0xDC00 \<le> unat c \<and> unat c \<le> 0xDFFF"

fun scalar_values :: "jsstring \<Rightarrow> nat list" where
  "scalar_values [] = []"
| "scalar_values [c] = (if high_surrogate c \<or> low_surrogate c then [0xFFFD] else [unat c])"
| "scalar_values (c # d # cs) =
     (if high_surrogate c then
        (if low_surrogate d
         then (0x10000 + (unat c - 0xD800) * 0x400 + (unat d - 0xDC00)) # scalar_values cs
         else 0xFFFD # scalar_values (d # cs))
      else if low_surrogate c then 0xFFFD # scalar_values (d # cs)
      else unat c # scalar_values (d # cs))"

definition utf8_encode :: "nat \<Rightarrow> bytes" where
  "utf8_encode cp =
     (if cp < 0x80 then [of_nat cp]
      else if cp < 0x800 then [of_nat (0xC0 + cp div 64), of_nat (0x80 + cp mod 64)]
      else if cp < 0x10000 then
        [of_nat (0xE0 + cp div 4096), of_nat (0x80 + cp div 64 mod 64), of_nat (0x80 + cp mod 64)]
      else
        [of_nat (0xF0 + cp div 262144), of_nat (0x80 + cp div 4096 mod 64),
         of_nat (0x80 + cp div 64 mod 64), of_nat (0x80 + cp mod 64)])"

definition TextEncoder_encode :: "jsstring \<Rightarrow> bytes" where
  "TextEncoder_encode s = concat (map utf8_encode (scalar_values s))"

text \<open>
  \<open>new TextDecoder().decode(b)\<close>: the UTF-8 decoder of the platform with its default
  options. It is not fatal, so every malformed sequence yields U+FFFD and the byte that
  ended it is read again; and \<open>ignoreBOM\<close> is false, so a U+FEFF decoded first is dropped.
  The decoder's state is the record below; \<open>utf8_decode\<close> runs it over the bytes.
\<close>

record utf8_decoder =
  code_point :: nat
  bytes_seen :: nat
  bytes_needed :: nat
  lower_boundary :: nat
  upper_boundary :: nat

definition utf8_initial :: utf8_decoder where
  "utf8_initial =
     \<lparr>code_point = 0, bytes_seen = 0, bytes_needed = 0,
      lower_boundary = 0x80, upper_boundary = 0xBF\<rparr>"

function utf8_decode :: "utf8_decoder \<Rightarrow> bytes \<Rightarrow> nat list" where
  "utf8_decode st [] = (if bytes_needed st \<noteq> 0 then [0xFFFD] else [])"
| "utf8_decode st (b # bs) =
     (let x = unat b in
      if bytes_needed st = 0 then
        (if x \<le> 0x7F then x # utf8_decode st bs
         else if 0xC2 \<le> x \<and> x \<le> 0xDF then
           utf8_decode (st\<lparr>bytes_needed := 1, code_point := x mod 32\<rparr>) bs
         else if 0xE0 \<le> x \<and> x \<le> 0xEF then
           utf8_decode
             (st\<lparr>lower_boundary := (if x = 0xE0 then 0xA0 else lower_boundary st),
                 upper_boundary := (if x = 0xED then 0x9F else upper_boundary st),
                 bytes_needed := 2, code_point := x mod 16\<rparr>) bs
         else if 0xF0 \<le> x \<and> x \<le> 0xF4 then
           utf8_decode
             (st\<lparr>lower_boundary := (if x = 0xF0 then 0x90 else lower_boundary st),
                 upper_boundary := (if x = 0xF4 then 0x8F else upper_boundary st),
                 bytes_needed := 3, code_point := x mod 8\<rparr>) bs
         else 0xFFFD # utf8_decode st bs)
      else if x < lower_boundary st \<or> upper_boundary st < x then
        0xFFFD # utf8_decode utf8_initial (b # bs)
      else if bytes_seen st + 1 \<noteq> bytes_needed st then
        utf8_decode
          (st\<lparr>lower_boundary := 0x80, upper_boundary := 0xBF,
              code_point := code_point st * 64 + x mod 64,
              bytes_seen := bytes_seen st + 1\<rparr>) bs
      else (code_point st * 64 + x mod 64) # utf8_decode utf8_initial bs)"
  by pat_completeness auto
termination
  by (relation "measure (\<lambda>(st, bs). 2 * length bs + (if bytes_needed st = 0 then 0 else 1))")
     (auto simp: utf8_initial_def)

definition utf16_encode :: "nat \<Rightarrow> jsstring" where
  "utf16_encode cp =
     (if cp < 0x10000 then [of_nat cp]
      else [of_nat (0xD800 + (cp - 0x10000) div 0x400),
            of_nat (0xDC00 + (cp - 0x10000) mod 0x400)])"

definition strip_BOM :: "nat list \<Rightarrow> nat list" where
  "strip_BOM cps = (case cps of [] \<Rightarrow> [] | c # r \<Rightarrow> if c = 0xFEFF then r else cps)"

definition TextDecoder_decode :: "bytes \<Rightarrow> jsstring" where
  "TextDecoder_decode b = concat (map utf16_encode (strip_BOM (utf8_decode utf8_initial b)))"

text \<open>
  Scalar values are the code points outside the surrogate range; a string is well formed
  when it has no unpaired surrogate.
\<close>

definition scalar :: "nat \<Rightarrow> bool" where
  "scalar cp \<longleftrightarrow> cp < 0x110000 \<and> \<not> (0xD800 \<le> cp \<and> cp \<le> 0xDFFF)"

fun well_formed :: "jsstring \<Rightarrow> bool" where
  "well_formed [] \<longleftrightarrow> True"
| "well_formed [c] \<longleftrightarrow> \<not> high_surrogate c \<and> \<not> low_surrogate c"
| "well_formed (c # d # cs) \<longleftrightarrow>
     (if high_surrogate c then low_surrogate d \<and> well_formed cs
      else \<not> low_surrogate c \<and> well_formed (d # cs))"

definition strip_leading_BOM :: "jsstring \<Rightarrow> jsstring" where
  "strip_leading_BOM s = (case s of [] \<Rightarrow> [] | c # r \<Rightarrow> if c = 0xFEFF then r else s)"

section \<open>The platform: \<open>crypto.subtle\<close>, \<open>crypto.getRandomValues\<close> and \<open>JSON\<close>\<close>

text \<open>
  The cryptography is the browser's, not the repository's: it is a parameter \<open>P\<close> of every
  operation. A \<open>CryptoKey\<close> is a value of the opaque type \<open>'k\<close> (TypeScript gives every key
  the one type \<open>CryptoKey\<close>), a JSON value is of type \<open>'j\<close>, and \<open>'s\<close> is the state of the
  platform's random generator. Each field is one call the source makes, with the
  arguments the source varies:
  \<^item> \<open>getRandomValues n\<close> is \<open>crypto.getRandomValues(new Uint8Array(n))\<close>;
  \<^item> \<open>generateKey_ECDH\<close> is \<open>generateKey({name: "ECDH", namedCurve: "P-256"}, true,
    ["deriveKey", "deriveBits"])\<close>, giving the private and the public key;
  \<^item> \<open>generateKey_AES_GCM\<close> is \<open>generateKey({name: "AES-GCM", length: 256}, true, \<dots>)\<close>;
  \<^item> \<open>exportKey_raw\<close>, \<open>exportKey_jwk\<close> are \<open>exportKey("raw", k)\<close> and \<open>exportKey("jwk", k)\<close>;
  \<^item> \<open>importKey_raw_ECDH b\<close> is \<open>importKey("raw", b, {name: "ECDH", namedCurve: "P-256"},
    true, [])\<close>; \<open>importKey_raw_HKDF\<close>, \<open>importKey_raw_PBKDF2\<close> and \<open>importKey_raw_AES_GCM\<close>
    import raw bytes for these algorithms; \<open>importKey_jwk_ECDH\<close> imports a private key;
  \<^item> \<open>deriveBits_ECDH pub priv n\<close> is \<open>deriveBits({name: "ECDH", public: pub}, priv, n)\<close>;
  \<^item> \<open>deriveKey_HKDF salt info base\<close> is \<open>deriveKey({name: "HKDF", hash: "SHA-256", salt,
    info}, base, {name: "AES-GCM", length: 256}, false, ["encrypt", "decrypt"])\<close>;
  \<^item> \<open>deriveKey_PBKDF2 salt iterations base\<close> is the same for \<open>{name: "PBKDF2", salt,
    iterations, hash: "SHA-256"}\<close>;
  \<^item> \<open>encrypt_AES_GCM iv key data\<close> and \<open>decrypt_AES_GCM iv key data\<close> are \<open>encrypt\<close> and
    \<open>decrypt\<close> with \<open>{name: "AES-GCM", iv}\<close>;
  \<^item> \<open>JSON_stringify\<close> and \<open>JSON_parse\<close>.
\<close>

record ('k, 'j, 's) platform =
  getRandomValues :: "nat \<Rightarrow> 's \<Rightarrow> bytes \<times> 's"
  generateKey_ECDH :: "'s \<Rightarrow> (js_error + 'k \<times> 'k) \<times> 's"
  generateKey_AES_GCM :: "'s \<Rightarrow> (js_error + 'k) \<times> 's"
  exportKey_raw :: "'k \<Rightarrow> js_error + bytes"
  exportKey_jwk :: "'k \<Rightarrow> js_error + 'j"
  importKey_raw_ECDH :: "bytes \<Rightarrow> js_error + 'k"
  importKey_raw_HKDF :: "bytes \<Rightarrow> js_error + 'k"
  importKey_raw_PBKDF2 :: "bytes \<Rightarrow> js_error + 'k"
  importKey_raw_AES_GCM :: "bytes \<Rightarrow> js_error + 'k"
  importKey_jwk_ECDH :: "'j \<Rightarrow> js_error + 'k"
  deriveBits_ECDH :: "'k \<Rightarrow> 'k \<Rightarrow> nat \<Rightarrow> js_error + bytes"
  deriveKey_HKDF :: "bytes \<Rightarrow> bytes \<Rightarrow> 'k \<Rightarrow> js_error + 'k"
  deriveKey_PBKDF2 :: "bytes \<Rightarrow> nat \<Rightarrow> 'k \<Rightarrow> js_error + 'k"
  encrypt_AES_GCM :: "bytes \<Rightarrow> 'k \<Rightarrow> bytes \<Rightarrow> js_error + bytes"
  decrypt_AES_GCM :: "bytes \<Rightarrow> 'k \<Rightarrow> bytes \<Rightarrow> js_error + bytes"
  JSON_stringify :: "'j \<Rightarrow> jsstring"
  JSON_parse :: "jsstring \<Rightarrow> js_error + 'j"

section \<open>\<open>CryptoService\<close>\<close>

subsection \<open>Key pairs and key exchange\<close>

record 'k key_pair =
  privateKey :: 'k
  publicKey :: 'k
  publicKeyRaw :: bytes

text \<open>\<open>generateKeyPair\<close>: a fresh P-256 pair and the raw export of its public key.\<close>

definition generateKeyPair ::
  "('k, 'j, 's) platform \<Rightarrow> 's \<Rightarrow> (js_error + 'k key_pair) \<times> 's" where
  "generateKeyPair P s =
     (case generateKey_ECDH P s of
        (keyPair, s') \<Rightarrow>
          (andThen keyPair (\<lambda>(priv, pub).
           andThen (exportKey_raw P pub) (\<lambda>raw.
           Inr \<lparr>privateKey = priv, publicKey = pub, publicKeyRaw = raw\<rparr>)), s'))"

definition importPublicKey :: "('k, 'j, 's) platform \<Rightarrow> bytes \<Rightarrow> js_error + 'k" where
  "importPublicKey P raw = importKey_raw_ECDH P raw"

text \<open>\<open>computeSharedSecret\<close>: 256 bits of ECDH between my private and their public key.\<close>

definition computeSharedSecret ::
  "('k, 'j, 's) platform \<Rightarrow> 'k \<Rightarrow> 'k \<Rightarrow> js_error + bytes" where
  "computeSharedSecret P myPrivateKey theirPublicKey =
     deriveBits_ECDH P theirPublicKey myPrivateKey 256"

text \<open>
  \<open>deriveAESKey\<close>: HKDF-SHA-256 over the shared secret with a salt of 32 zero bytes and the
  info \<open>"chat-encryption-v1"\<close>.
\<close>

definition deriveAESKey :: "('k, 'j, 's) platform \<Rightarrow> bytes \<Rightarrow> js_error + 'k" where
  "deriveAESKey P sharedSecret =
     andThen (importKey_raw_HKDF P sharedSecret) (\<lambda>baseKey.
     deriveKey_HKDF P (replicate 32 0) (TextEncoder_encode (js ''chat-encryption-v1'')) baseKey)"

subsection \<open>Messages\<close>

record envelope =
  encryptedData :: jsstring
  nonce :: jsstring

text \<open>
  \<open>encryptMessage\<close>: a random 12-byte nonce, the UTF-8 bytes of the message encrypted
  with AES-GCM, both results in base64. The \<open>catch\<close> rethrows.
\<close>

definition encryptMessage ::
  "('k, 'j, 's) platform \<Rightarrow> jsstring \<Rightarrow> 'k \<Rightarrow> 's \<Rightarrow> (js_error + envelope) \<times> 's" where
  "encryptMessage P message aesKey s =
     (case getRandomValues P 12 s of
        (nonce', s') \<Rightarrow>
          (andThen (encrypt_AES_GCM P nonce' aesKey (TextEncoder_encode message))
             (\<lambda>encryptedBuffer.
           andThen (arrayBufferToBase64 encryptedBuffer) (\<lambda>encryptedData'.
           andThen (arrayBufferToBase64 nonce') (\<lambda>nonceB64.
           Inr \<lparr>encryptedData = encryptedData', nonce = nonceB64\<rparr>))), s'))"

text \<open>
  \<open>decryptMessage\<close>: whatever is thrown inside the \<open>try\<close> (by a base64 conversion or by
  \<open>decrypt\<close>) is replaced by \<open>Error("Falha na descriptografia - chave incorreta ou dados
  corrompidos")\<close>.
\<close>

definition decryptMessage ::
  "('k, 'j, 's) platform \<Rightarrow> jsstring \<Rightarrow> jsstring \<Rightarrow> 'k \<Rightarrow> js_error + jsstring" where
  "decryptMessage P encryptedData' nonce' aesKey =
     catch
       (andThen (base64ToArrayBuffer encryptedData') (\<lambda>encryptedBuffer.
        andThen (base64ToArrayBuffer nonce') (\<lambda>nonceBuffer.
        andThen (decrypt_AES_GCM P nonceBuffer aesKey encryptedBuffer) (\<lambda>decryptedBuffer.
        Inr (TextDecoder_decode decryptedBuffer)))))
       (\<lambda>error. Inl Falha_na_descriptografia)"

subsection \<open>The private key under a password\<close>

text \<open>\<open>deriveKeyFromPassword\<close>: PBKDF2-SHA-256 with 100000 iterations.\<close>

definition deriveKeyFromPassword ::
  "('k, 'j, 's) platform \<Rightarrow> jsstring \<Rightarrow> bytes \<Rightarrow> js_error + 'k" where
  "deriveKeyFromPassword P password salt' =
     andThen (importKey_raw_PBKDF2 P (TextEncoder_encode password)) (\<lambda>baseKey.
     deriveKey_PBKDF2 P salt' 100000 baseKey)"

record protected_key =
  encryptedPrivateKey :: jsstring
  salt :: jsstring
  iv :: jsstring

text \<open>
  \<open>encryptPrivateKey\<close>: a random 16-byte salt, the key derived from the password, a random
  12-byte IV; the private key exported as JWK, serialised by \<open>JSON.stringify\<close>, encoded in
  UTF-8 and encrypted.
\<close>

definition encryptPrivateKey ::
  "('k, 'j, 's) platform \<Rightarrow> 'k \<Rightarrow> jsstring \<Rightarrow> 's \<Rightarrow> (js_error + protected_key) \<times> 's" where
  "encryptPrivateKey P privateKey' password s =
     (case getRandomValues P 16 s of
        (salt', s1) \<Rightarrow>
          andThenS (deriveKeyFromPassword P password salt', s1) (\<lambda>derivedKey s1.
            (case getRandomValues P 12 s1 of
               (iv', s2) \<Rightarrow>
                 (andThen (exportKey_jwk P privateKey') (\<lambda>privateKeyJWK.
                  andThen
                    (encrypt_AES_GCM P iv' derivedKey
                       (TextEncoder_encode (JSON_stringify P privateKeyJWK)))
                    (\<lambda>encryptedData'.
                  andThen (arrayBufferToBase64 encryptedData') (\<lambda>a.
                  andThen (arrayBufferToBase64 salt') (\<lambda>b.
                  andThen (arrayBufferToBase64 iv') (\<lambda>c.
                  Inr \<lparr>encryptedPrivateKey = a, salt = b, iv = c\<rparr>))))), s2))))"

text \<open>
  \<open>decryptPrivateKey\<close>: the \<open>catch\<close> turns an error named \<open>OperationError\<close> into
  \<open>Error("Senha incorreta")\<close> and any other error \<open>e\<close> into \<open>Error("Falha ao decifrar chave
  privada: " + e.message)\<close>.
\<close>

definition decryptPrivateKey ::
  "('k, 'j, 's) platform \<Rightarrow> jsstring \<Rightarrow> jsstring \<Rightarrow> jsstring \<Rightarrow> jsstring \<Rightarrow> js_error + 'k" where
  "decryptPrivateKey P encryptedPrivateKey' salt' iv' password =
     catch
       (andThen (base64ToArrayBuffer encryptedPrivateKey') (\<lambda>encryptedData'.
        andThen (base64ToArrayBuffer salt') (\<lambda>saltBytes.
        andThen (base64ToArrayBuffer iv') (\<lambda>ivBytes.
        andThen (deriveKeyFromPassword P password saltBytes) (\<lambda>derivedKey.
        andThen (decrypt_AES_GCM P ivBytes derivedKey encryptedData') (\<lambda>decryptedData.
        andThen (JSON_parse P (TextDecoder_decode decryptedData)) (\<lambda>privateKeyJWK.
        importKey_jwk_ECDH P privateKeyJWK)))))))
       (\<lambda>error.
          if error_name error = ''OperationError'' then Inl Senha_incorreta
          else Inl (Falha_ao_decifrar_chave_privada error))"

subsection \<open>Group keys\<close>

definition generateGroupKey :: "('k, 'j, 's) platform \<Rightarrow> 's \<Rightarrow> (js_error + 'k) \<times> 's" where
  "generateGroupKey P s = generateKey_AES_GCM P s"

definition exportGroupKey :: "('k, 'j, 's) platform \<Rightarrow> 'k \<Rightarrow> js_error + bytes" where
  "exportGroupKey P key = exportKey_raw P key"

definition importGroupKey :: "('k, 'j, 's) platform \<Rightarrow> bytes \<Rightarrow> js_error + 'k" where
  "importGroupKey P keyBytes = importKey_raw_AES_GCM P keyBytes"

record wrapped_group_key =
  encryptedGroupKey :: jsstring
  ephemeralPublicKey :: jsstring

text \<open>
  \<open>encryptGroupKeyForMember\<close>: an ephemeral pair, the member's public key imported, the
  shared secret and the wrapping key; the group key bytes are converted to base64 and the
  UTF-8 bytes of that text are what is encrypted, under a random 12-byte nonce. The result
  joins the base64 of the ciphertext and of the nonce with \<open>":"\<close>.
\<close>

definition encryptGroupKeyForMember ::
  "('k, 'j, 's) platform \<Rightarrow> bytes \<Rightarrow> bytes \<Rightarrow> 's \<Rightarrow> (js_error + wrapped_group_key) \<times> 's" where
  "encryptGroupKeyForMember P groupKey memberPublicKeyRaw s =
     andThenS (generateKeyPair P s) (\<lambda>ephemeralKeys s1.
     andThenS
       (andThen (importPublicKey P memberPublicKeyRaw) (\<lambda>memberPublicKey.
        andThen (computeSharedSecret P (privateKey ephemeralKeys) memberPublicKey)
          (\<lambda>sharedSecret.
        andThen (deriveAESKey P sharedSecret) (\<lambda>wrapKey.
        andThen (arrayBufferToBase64 groupKey) (\<lambda>groupKeyB64.
        Inr (wrapKey, TextEncoder_encode groupKeyB64))))), s1)
       (\<lambda>(wrapKey, groupKeyBytes) s1.
          (case getRandomValues P 12 s1 of
             (nonce', s2) \<Rightarrow>
               (andThen (encrypt_AES_GCM P nonce' wrapKey groupKeyBytes) (\<lambda>encryptedData'.
                andThen (arrayBufferToBase64 encryptedData') (\<lambda>a.
                andThen (arrayBufferToBase64 nonce') (\<lambda>b.
                andThen (arrayBufferToBase64 (publicKeyRaw ephemeralKeys)) (\<lambda>c.
                Inr \<lparr>encryptedGroupKey = a @ js '':'' @ b, ephemeralPublicKey = c\<rparr>)))),
                s2))))"

text \<open>
  \<open>s.split(":")\<close>: the pieces of \<open>s\<close> between the separators; never an empty list.
\<close>

fun split :: "codeunit \<Rightarrow> jsstring \<Rightarrow> jsstring list" where
  "split sep [] = [[]]"
| "split sep (c # cs) =
     (if c = sep then [] # split sep cs
      else (case split sep cs of
              [] \<Rightarrow> [[c]]
            | p # ps \<Rightarrow> (c # p) # ps))"

text \<open>
  \<open>decryptGroupKey\<close>: \<open>const [encryptedData, nonce] = encryptedGroupKey.split(":")\<close> takes the
  first two pieces (a missing one is \<open>undefined\<close>); a piece that is missing or empty throws
  \<open>Error("Formato de chave cifrada invalido")\<close>. The ephemeral public key is decoded and
  imported and the wrapping key derived before the two pieces are decoded. The decrypted
  bytes are read as text and that text is decoded from base64. The \<open>catch\<close> rethrows.
\<close>

definition decryptGroupKey ::
  "('k, 'j, 's) platform \<Rightarrow> jsstring \<Rightarrow> jsstring \<Rightarrow> 'k \<Rightarrow> js_error + bytes" where
  "decryptGroupKey P encryptedGroupKey' ephemeralPublicKeyB64 myPrivateKey =
     (let parts = split 58 encryptedGroupKey';
          encryptedData' = (case parts of [] \<Rightarrow> None | x # _ \<Rightarrow> Some x);
          nonce' = (case parts of _ # y # _ \<Rightarrow> Some y | _ \<Rightarrow> None)
      in case (encryptedData', nonce') of
           (Some encryptedData', Some nonce') \<Rightarrow>
             if encryptedData' = [] \<or> nonce' = [] then Inl Formato_de_chave_cifrada_invalido
             else
               andThen (base64ToArrayBuffer ephemeralPublicKeyB64) (\<lambda>ephemeralPublicKeyRaw.
               andThen (importPublicKey P ephemeralPublicKeyRaw) (\<lambda>ephemeralPublicKey'.
               andThen (computeSharedSecret P myPrivateKey ephemeralPublicKey')
                 (\<lambda>sharedSecret.
               andThen (deriveAESKey P sharedSecret) (\<lambda>wrapKey.
               andThen (base64ToArrayBuffer encryptedData') (\<lambda>encryptedBuffer.
               andThen (base64ToArrayBuffer nonce') (\<lambda>nonceBuffer.
               andThen (decrypt_AES_GCM P nonceBuffer wrapKey encryptedBuffer)
                 (\<lambda>decryptedData.
               base64ToArrayBuffer (TextDecoder_decode decryptedData))))))))
         | _ \<Rightarrow> Inl Formato_de_chave_cifrada_invalido)"

definition encryptGroupMessage ::
  "('k, 'j, 's) platform \<Rightarrow> jsstring \<Rightarrow> 'k \<Rightarrow> 's \<Rightarrow> (js_error + envelope) \<times> 's" where
  "encryptGroupMessage P message groupKey s = encryptMessage P message groupKey s"

definition decryptGroupMessage ::
  "('k, 'j, 's) platform \<Rightarrow> jsstring \<Rightarrow> jsstring \<Rightarrow> 'k \<Rightarrow> js_error + jsstring" where
  "decryptGroupMessage P encryptedData' nonce' groupKey =
     decryptMessage P encryptedData' nonce' groupKey"

section \<open>Sending a direct message\<close>










section \<open>What the operations need of the platform\<close>

text \<open>
  A key is valid for AES-GCM when the platform decrypts, under the same key and IV,
  whatever it encrypted.
\<close>

definition valid_AES_GCM_key :: "('k, 'j, 's) platform \<Rightarrow> 'k \<Rightarrow> bool" where
  "valid_AES_GCM_key P k \<longleftrightarrow>
     (\<forall>iv' p c. encrypt_AES_GCM P iv' k p = Inr c \<longrightarrow> decrypt_AES_GCM P iv' k c = Inr p)"

definition begins_with_BOM :: "jsstring \<Rightarrow> bool" where
  "begins_with_BOM s \<longleftrightarrow> (case s of [] \<Rightarrow> False | c # _ \<Rightarrow> c = 0xFEFF)"

text \<open>
  \<open>valid_key_pair P priv raw\<close>: the private key \<open>priv\<close> and the raw public key \<open>raw\<close> are a key
  pair of the platform's ECDH. Against every ephemeral pair the platform generates, what
  the owner of \<open>priv\<close> derives from the exported ephemeral public key is what the holder of
  the ephemeral private key derives from \<open>raw\<close>.
\<close>

definition valid_key_pair :: "('k, 'j, 's) platform \<Rightarrow> 'k \<Rightarrow> bytes \<Rightarrow> bool" where
  "valid_key_pair P priv raw \<longleftrightarrow>
     (\<forall>s epriv epub s' eraw pub.
        generateKey_ECDH P s = (Inr (epriv, epub), s') \<and> exportKey_raw P epub = Inr eraw
        \<and> importKey_raw_ECDH P raw = Inr pub \<longrightarrow>
        (\<exists>epub'. importKey_raw_ECDH P eraw = Inr epub'
           \<and> deriveBits_ECDH P epub' priv 256 = deriveBits_ECDH P pub epriv 256))"

text \<open>
  \<open>JSON.parse\<close> reads back what \<open>JSON.stringify\<close> wrote, and a JSON text has no unpaired
  surrogate and does not begin with U+FEFF.
\<close>

definition JSON_round_trip :: "('k, 'j, 's) platform \<Rightarrow> bool" where
  "JSON_round_trip P \<longleftrightarrow>
     (\<forall>j. JSON_parse P (JSON_stringify P j) = Inr j
          \<and> well_formed (JSON_stringify P j) \<and> \<not> begins_with_BOM (JSON_stringify P j))"

text \<open>An extractable private key: importing its JWK gives the key back.\<close>

definition exportable_private_key :: "('k, 'j, 's) platform \<Rightarrow> 'k \<Rightarrow> bool" where
  "exportable_private_key P k \<longleftrightarrow>
     (\<forall>j. exportKey_jwk P k = Inr j \<longrightarrow> importKey_jwk_ECDH P j = Inr k)"

section \<open>Malformed group-key envelopes\<close>

text \<open>
  The combined string in the words of the specification: \<open>"<ciphertext>:<nonce>"\<close>, two halves
  joined by one separator. The ciphertext half is the text before the first separator, the
  nonce half is the text after it.
\<close>

definition separator_absent :: "jsstring \<Rightarrow> bool" where
  "separator_absent e \<longleftrightarrow> 58 \<notin> set e"

definition ciphertext_half :: "jsstring \<Rightarrow> jsstring" where
  "ciphertext_half e = takeWhile (\<lambda>c. c \<noteq> 58) e"

definition nonce_half :: "jsstring \<Rightarrow> jsstring" where
  "nonce_half e = drop 1 (dropWhile (\<lambda>c. c \<noteq> 58) e)"

text \<open>Valid base64 is what \<open>base64ToArrayBuffer\<close> decodes.\<close>

definition valid_base64 :: "jsstring \<Rightarrow> bool" where
  "valid_base64 t \<longleftrightarrow> \<not> isl (base64ToArrayBuffer t)"

text \<open>
  The combined string is malformed when the separator is absent, when either half is
  absent (empty), or when either half is not valid base64.
\<close>

definition malformed_envelope :: "jsstring \<Rightarrow> bool" where
  "malformed_envelope e \<longleftrightarrow>
     separator_absent e \<or> ciphertext_half e = [] \<or> nonce_half e = []
     \<or> \<not> valid_base64 (ciphertext_half e) \<or> \<not> valid_base64 (nonce_half e)"

text \<open>
  The nonce as \<open>decryptGroupKey\<close> reads it: the text between the first separator and the
  second one, or the end of the string. What follows a second separator is not read.
\<close>

definition nonce_read :: "jsstring \<Rightarrow> jsstring" where
  "nonce_read e = takeWhile (\<lambda>c. c \<noteq> 58) (nonce_half e)"

definition half_absent :: "jsstring \<Rightarrow> bool" where
  "half_absent e \<longleftrightarrow> separator_absent e \<or> ciphertext_half e = [] \<or> nonce_read e = []"

definition malformed_as_read :: "jsstring \<Rightarrow> bool" where
  "malformed_as_read e \<longleftrightarrow>
     half_absent e
     \<or> \<not> valid_base64 (ciphertext_half e) \<or> \<not> valid_base64 (nonce_read e)"

text \<open>
  The errors of the source that are the \<open>EncodingFailure\<close> of the specification: malformed
  base64 (thrown by \<open>base64ToArrayBuffer\<close> itself or by \<open>atob\<close>) and a malformed combined
  envelope string.
\<close>

definition is_EncodingFailure :: "js_error \<Rightarrow> bool" where
  "is_EncodingFailure e \<longleftrightarrow>
     e = Base64_invalido \<or> e = PlatformError ''InvalidCharacterError''
     \<or> e = Formato_de_chave_cifrada_invalido"

text \<open>
  Steps 2 to 4 of \<open>decryptGroupKey\<close>, which run before the two halves are decoded: the
  ephemeral public key is decoded and imported, the secret shared, the wrapping key
  derived.
\<close>

definition unwrappingKey ::
  "('k, 'j, 's) platform \<Rightarrow> jsstring \<Rightarrow> 'k \<Rightarrow> js_error + 'k" where
  "unwrappingKey P ephemeralPublicKeyB64 myPrivateKey =
     andThen (base64ToArrayBuffer ephemeralPublicKeyB64) (\<lambda>ephemeralPublicKeyRaw.
     andThen (importPublicKey P ephemeralPublicKeyRaw) (\<lambda>ephemeralPublicKey'.
     andThen (computeSharedSecret P myPrivateKey ephemeralPublicKey') (\<lambda>sharedSecret.
     deriveAESKey P sharedSecret)))"

section \<open>The random generator\<close>




section \<open>Tampering with an envelope\<close>

text \<open>Bit \<open>i\<close> of a byte sequence, counted from the first byte, flipped.\<close>

definition flip_bit_at :: "nat \<Rightarrow> bytes \<Rightarrow> bytes" where
  "flip_bit_at i b = b[i div 8 := flip_bit (i mod 8) (b ! (i div 8))]"

text \<open>
  Modelled from the spec: the body of \<open>crypto.subtle.decrypt\<close> is not in the repository. The
  specification has it verify the authentication tag and fail on bit corruption; here,
  under the key \<open>k\<close>, the platform's \<open>decrypt\<close> throws for every ciphertext and every nonce
  that differ in one bit from what its \<open>encrypt\<close> produced and used.
\<close>

definition detects_tampering :: "('k, 'j, 's) platform \<Rightarrow> 'k \<Rightarrow> bool" where
  "detects_tampering P k \<longleftrightarrow>
     (\<forall>n p c i. encrypt_AES_GCM P n k p = Inr c \<longrightarrow>
        (i < 8 * length c \<longrightarrow> isl (decrypt_AES_GCM P n k (flip_bit_at i c)))
      \<and> (i < 8 * length n \<longrightarrow> isl (decrypt_AES_GCM P (flip_bit_at i n) k c)))"

section \<open>Elliptic-curve Diffie-Hellman\<close>

text \<open>
  Modelled from the spec: the body of \<open>crypto.subtle.deriveBits\<close> for ECDH is the browser's and
  is not in the repository. The specification has it compute the ECDH shared point and
  return its 256-bit representation. A curve is given by its point addition, the point at
  infinity, the base point, membership, and the 32 bytes that represent a point.
\<close>

record 'p curve =
  point_add :: "'p \<Rightarrow> 'p \<Rightarrow> 'p"
  infinity :: 'p
  generator :: 'p
  on_curve :: "'p \<Rightarrow> bool"
  x_bytes :: "'p \<Rightarrow> bytes"

text \<open>Scalar multiplication, \<open>smul C d Q\<close> is \<open>Q + ... + Q\<close> with \<open>d\<close> summands.\<close>

fun smul :: "'p curve \<Rightarrow> nat \<Rightarrow> 'p \<Rightarrow> 'p" where
  "smul C 0 Q = infinity C"
| "smul C (Suc d) Q = point_add C Q (smul C d Q)"

text \<open>
  The group law, as far as the exchange needs it: the points of the curve are closed under
  addition, the point at infinity is neutral, addition is associative, and the base point is
  on the curve.
\<close>

definition group_law :: "'p curve \<Rightarrow> bool" where
  "group_law C \<longleftrightarrow>
     on_curve C (infinity C) \<and> on_curve C (generator C)
     \<and> (\<forall>x y. on_curve C x \<and> on_curve C y \<longrightarrow> on_curve C (point_add C x y))
     \<and> (\<forall>x. on_curve C x \<longrightarrow> point_add C (infinity C) x = x)
     \<and> (\<forall>x y z. on_curve C x \<and> on_curve C y \<and> on_curve C z \<longrightarrow>
           point_add C (point_add C x y) z = point_add C x (point_add C y z))"

text \<open>
  What a \<open>CryptoKey\<close> holds: a private key holds a scalar, a public key holds a point.
\<close>

record ('k, 'p) key_contents =
  scalar_of :: "'k \<Rightarrow> nat option"
  point_of :: "'k \<Rightarrow> 'p option"

text \<open>
  Modelled from the spec: the platform's ECDH over the curve \<open>C\<close>. From a private key holding
  \<open>d\<close> and a public key holding \<open>Q\<close>, 256 bits are derived as the representation of the shared
  point \<open>d Q\<close>.
\<close>

definition implements_ECDH ::
  "('k, 'j, 's) platform \<Rightarrow> 'p curve \<Rightarrow> ('k, 'p) key_contents \<Rightarrow> bool" where
  "implements_ECDH P C R \<longleftrightarrow>
     (\<forall>priv pub d Q. scalar_of R priv = Some d \<and> point_of R pub = Some Q \<longrightarrow>
        deriveBits_ECDH P pub priv 256 = Inr (x_bytes C (smul C d Q)))"

text \<open>A key pair: the public key holds the private scalar's multiple of the base point.\<close>

definition ECDH_key_pair :: "'p curve \<Rightarrow> ('k, 'p) key_contents \<Rightarrow> 'k \<Rightarrow> 'k \<Rightarrow> bool" where
  "ECDH_key_pair C R priv pub \<longleftrightarrow>
     (case scalar_of R priv of
        None \<Rightarrow> False
      | Some d \<Rightarrow> point_of R pub = Some (smul C d (generator C)))"

section \<open>A small platform\<close>

text \<open>
  A platform small enough to compute with, on which the theorems below are instantiated.
  Keys are numbers and byte strings; the key exchange multiplies modulo 251; the cipher
  adds the sum of the key bytes to every plaintext byte and puts in front a 16-byte tag
  that sums the key, the IV and the ciphertext; a public key is exported as 65 bytes that begin
  with 4; the random generator counts.
\<close>

datatype toy_key = ECDH_private nat | ECDH_public nat | Secret bytes

definition toy_getRandomValues :: "nat \<Rightarrow> nat \<Rightarrow> bytes \<times> nat" where
  "toy_getRandomValues n s = (replicate n (of_nat (s + 1)), s + 1)"

definition toy_public :: "nat \<Rightarrow> nat" where
  "toy_public d = d * 7 mod 251"

definition toy_private :: "nat \<Rightarrow> nat" where
  "toy_private s = s + 2"

definition toy_generateKey_ECDH :: "nat \<Rightarrow> (js_error + toy_key \<times> toy_key) \<times> nat" where
  "toy_generateKey_ECDH s =
     (Inr (ECDH_private (toy_private s), ECDH_public (toy_public (toy_private s))), s + 1)"

definition toy_generateKey_AES_GCM :: "nat \<Rightarrow> (js_error + toy_key) \<times> nat" where
  "toy_generateKey_AES_GCM s = (Inr (Secret (replicate 32 (of_nat (s + 1)))), s + 1)"

definition toy_point :: "nat \<Rightarrow> bytes" where
  "toy_point q = 4 # replicate 63 0 @ [of_nat q]"

fun toy_exportKey_raw :: "toy_key \<Rightarrow> js_error + bytes" where
  "toy_exportKey_raw (ECDH_public q) = Inr (toy_point q)"
| "toy_exportKey_raw (Secret b) = Inr b"
| "toy_exportKey_raw (ECDH_private d) = Inl (PlatformError ''InvalidAccessError'')"

fun toy_exportKey_jwk :: "toy_key \<Rightarrow> js_error + nat" where
  "toy_exportKey_jwk (ECDH_private d) = Inr d"
| "toy_exportKey_jwk _ = Inl (PlatformError ''NotSupportedError'')"

definition toy_importKey_raw_ECDH :: "bytes \<Rightarrow> js_error + toy_key" where
  "toy_importKey_raw_ECDH b =
     (if length b = 65 \<and> hd b = 4 \<and> unat (last b) < 251 then Inr (ECDH_public (unat (last b)))
      else Inl (PlatformError ''DataError''))"

definition toy_importKey_raw_secret :: "bytes \<Rightarrow> js_error + toy_key" where
  "toy_importKey_raw_secret b = Inr (Secret b)"

definition toy_importKey_raw_AES_GCM :: "bytes \<Rightarrow> js_error + toy_key" where
  "toy_importKey_raw_AES_GCM b =
     (if length b = 32 then Inr (Secret b) else Inl (PlatformError ''DataError''))"

definition toy_importKey_jwk_ECDH :: "nat \<Rightarrow> js_error + toy_key" where
  "toy_importKey_jwk_ECDH d = Inr (ECDH_private d)"

fun toy_deriveBits_ECDH :: "toy_key \<Rightarrow> toy_key \<Rightarrow> nat \<Rightarrow> js_error + bytes" where
  "toy_deriveBits_ECDH (ECDH_public q) (ECDH_private d) n =
     Inr (replicate (n div 8 - 1) 0 @ [of_nat (d * q mod 251)])"
| "toy_deriveBits_ECDH _ _ n = Inl (PlatformError ''InvalidAccessError'')"

fun toy_deriveKey_HKDF :: "bytes \<Rightarrow> bytes \<Rightarrow> toy_key \<Rightarrow> js_error + toy_key" where
  "toy_deriveKey_HKDF salt' info (Secret b) = Inr (Secret (take 32 (b @ info @ salt')))"
| "toy_deriveKey_HKDF salt' info _ = Inl (PlatformError ''InvalidAccessError'')"

fun toy_deriveKey_PBKDF2 :: "bytes \<Rightarrow> nat \<Rightarrow> toy_key \<Rightarrow> js_error + toy_key" where
  "toy_deriveKey_PBKDF2 salt' iterations (Secret b) = Inr (Secret (take 32 (b @ salt')))"
| "toy_deriveKey_PBKDF2 salt' iterations _ = Inl (PlatformError ''InvalidAccessError'')"

definition toy_tag :: "bytes \<Rightarrow> bytes \<Rightarrow> bytes \<Rightarrow> bytes" where
  "toy_tag k iv' c = sum_list (k @ iv' @ c) # replicate 15 0"

fun toy_encrypt_AES_GCM :: "bytes \<Rightarrow> toy_key \<Rightarrow> bytes \<Rightarrow> js_error + bytes" where
  "toy_encrypt_AES_GCM iv' (Secret k) p =
     (let c = map (\<lambda>x. x + sum_list k) p in Inr (toy_tag k iv' c @ c))"
| "toy_encrypt_AES_GCM iv' _ p = Inl (PlatformError ''InvalidAccessError'')"

fun toy_decrypt_AES_GCM :: "bytes \<Rightarrow> toy_key \<Rightarrow> bytes \<Rightarrow> js_error + bytes" where
  "toy_decrypt_AES_GCM iv' (Secret k) d =
     (let c = drop 16 d in
      if take 16 d = toy_tag k iv' c then Inr (map (\<lambda>x. x - sum_list k) c)
      else Inl (PlatformError ''OperationError''))"
| "toy_decrypt_AES_GCM iv' _ d = Inl (PlatformError ''InvalidAccessError'')"

definition toy_JSON_stringify :: "nat \<Rightarrow> jsstring" where
  "toy_JSON_stringify d = 0x7B # replicate d 0x31 @ [0x7D]"

definition toy_JSON_parse :: "jsstring \<Rightarrow> js_error + nat" where
  "toy_JSON_parse t =
     (if 2 \<le> length t \<and> t = toy_JSON_stringify (length t - 2) then Inr (length t - 2)
      else Inl (PlatformError ''SyntaxError''))"

definition toy :: "(toy_key, nat, nat) platform" where
  "toy =
     \<lparr>getRandomValues = toy_getRandomValues,
      generateKey_ECDH = toy_generateKey_ECDH,
      generateKey_AES_GCM = toy_generateKey_AES_GCM,
      exportKey_raw = toy_exportKey_raw,
      exportKey_jwk = toy_exportKey_jwk,
      importKey_raw_ECDH = toy_importKey_raw_ECDH,
      importKey_raw_HKDF = toy_importKey_raw_secret,
      importKey_raw_PBKDF2 = toy_importKey_raw_secret,
      importKey_raw_AES_GCM = toy_importKey_raw_AES_GCM,
      importKey_jwk_ECDH = toy_importKey_jwk_ECDH,
      deriveBits_ECDH = toy_deriveBits_ECDH,
      deriveKey_HKDF = toy_deriveKey_HKDF,
      deriveKey_PBKDF2 = toy_deriveKey_PBKDF2,
      encrypt_AES_GCM = toy_encrypt_AES_GCM,
      decrypt_AES_GCM = toy_decrypt_AES_GCM,
      JSON_stringify = toy_JSON_stringify,
      JSON_parse = toy_JSON_parse\<rparr>"

definition K0 :: toy_key where
  "K0 = Secret [1, 2, 3]"

text \<open>Values on the small platform that the examples below use.\<close>

definition correct_key :: bytes where
  "correct_key = [99, 111, 114, 114, 101, 99, 116, 45, 104, 111, 114, 115, 101,
                  1, 1, 1, 1, 1, 1, 1, 1, 1, 1, 1, 1, 1, 1, 1, 1]"

definition wrong_key :: bytes where
  "wrong_key = [119, 114, 111, 110, 103, 45, 104, 111, 114, 115, 101,
                1, 1, 1, 1, 1, 1, 1, 1, 1, 1, 1, 1, 1, 1, 1, 1]"

definition G0 :: bytes where
  "G0 = [1, 2, 3, 4, 5, 6, 7, 8, 9, 10, 11, 12, 13, 14, 15, 16,
         17, 18, 19, 20, 21, 22, 23, 24, 25, 26, 27, 28, 29, 30, 31, 32]"

definition G0_text :: bytes where
  "G0_text = [65, 81, 73, 68, 66, 65, 85, 71, 66, 119, 103, 74, 67, 103, 115, 77, 68, 81, 52,
     80, 69, 66, 69, 83, 69, 120, 81, 86, 70, 104, 99, 89, 71, 82, 111, 98, 72, 66, 48, 101,
     72, 121, 65, 61]"

definition G0_wrapped :: bytes where
  "G0_wrapped = [90, 0, 0, 0, 0, 0, 0, 0, 0, 0, 0, 0, 0, 0, 0, 0,
     107, 123, 115, 110, 108, 107, 127, 113, 108, 161, 145, 116, 109, 145, 157, 119, 110,
     123, 94, 122, 111, 108, 111, 125, 111, 162, 123, 128, 112, 146, 141, 131, 113, 124,
     153, 140, 114, 108, 90, 143, 114, 163, 107, 103]"



text \<open>
  The curve of the small platform: the residues modulo 251 under addition, with base
  point 7. A private key holds its number, a public key its residue.
\<close>

definition toy_curve :: "nat curve" where
  "toy_curve =
     \<lparr>point_add = (\<lambda>x y. (x + y) mod 251),
      infinity = 0,
      generator = 7,
      on_curve = (\<lambda>q. q < 251),
      x_bytes = (\<lambda>q. replicate 31 0 @ [of_nat q])\<rparr>"

fun toy_scalar_of :: "toy_key \<Rightarrow> nat option" where
  "toy_scalar_of (ECDH_private d) = Some d"
| "toy_scalar_of _ = None"

fun toy_point_of :: "toy_key \<Rightarrow> nat option" where
  "toy_point_of (ECDH_public q) = (if q < 251 then Some q else None)"
| "toy_point_of _ = None"

definition toy_contents :: "(toy_key, nat) key_contents" where
  "toy_contents = \<lparr>scalar_of = toy_scalar_of, point_of = toy_point_of\<rparr>"

section \<open>Transcoder: the round trip\<close>

lemma unat_of_nat16: "k < 65536 \<Longrightarrow> unat (of_nat k :: 16 word) = k"
  by (simp add: unat_of_nat)

lemma unat_b64_char:
  "n < 64 \<Longrightarrow> unat (b64_char n) =
     (if n < 26 then 65 + n else if n < 52 then 71 + n else if n < 62 then n - 4
      else if n = 62 then 43 else 47)"
  by (simp add: b64_char_def unat_of_nat16 del: of_nat_add of_nat_diff)

lemma b64_index_char: "n < 64 \<Longrightarrow> b64_index (b64_char n) = Some n"
  by (auto simp: b64_index_def unat_b64_char Let_def)

lemma b64_char_not_ws: "n < 64 \<Longrightarrow> \<not> ascii_whitespace (b64_char n)"
  unfolding ascii_whitespace_def
  by (auto simp: unat_b64_char word_unat_eq_iff split: if_splits)

lemma b64_char_not_pad: "n < 64 \<Longrightarrow> b64_char n \<noteq> b64_pad"
  unfolding b64_pad_def
  by (auto simp: unat_b64_char word_unat_eq_iff split: if_splits)

lemma unat_byte: "unat (a :: byte) < 256"
proof -
  have "unat a < 2 ^ LENGTH(8)" by (rule unsigned_less)
  then show ?thesis by simp
qed

lemma unat_byte_le: "unat (a :: byte) \<le> 255"
  using unat_byte [of a] by simp

lemma unat_ucast_byte: "unat (ucast (x :: byte) :: codeunit) = unat x"
  using unat_byte [of x] by (simp add: unsigned_ucast_eq take_bit_nat_eq_self)

lemma ucast_byte_id: "(ucast (ucast (x :: byte) :: codeunit) :: byte) = x"
  using unat_byte [of x]
  by (simp add: word_unat_eq_iff unsigned_ucast_eq unsigned_take_bit_eq take_bit_nat_eq_self)

lemma map_ucast_byte_id: "map ucast (map ucast (b :: bytes) :: jsstring) = b"
  by (induction b) (simp_all only: list.map ucast_byte_id)

lemma b64_sextets_lt: "x \<in> set (b64_sextets b) \<Longrightarrow> x < 64"
proof (induction b arbitrary: x rule: b64_sextets.induct)
  case (1 a b c rest)
  have "unat a < 256" "unat b < 256" "unat c < 256" by (rule unat_byte)+
  with 1 show ?case by auto
next
  case (2 a b)
  have "unat a < 256" "unat b < 256" by (rule unat_byte)+
  with 2 show ?case by auto
next
  case (3 a)
  have "unat a < 256" by (rule unat_byte)
  with 3 show ?case by auto
qed simp

lemma length_b64_sextets: "length (b64_sextets b) mod 4 \<noteq> Suc 0"
  by (induction b rule: b64_sextets.induct) simp_all

lemma div16: "k < 16 \<Longrightarrow> (m * 16 + k) div 16 = (m::nat)" by simp
lemma mod16: "k < 16 \<Longrightarrow> (m * 16 + k) mod 16 = (k::nat)" by simp
lemma div4: "k < 4 \<Longrightarrow> (m * 4 + k) div 4 = (m::nat)" by simp
lemma mod4: "k < 4 \<Longrightarrow> (m * 4 + k) mod 4 = (k::nat)" by simp
lemma b_div16: "unat (b::byte) div 16 < 16" using unat_byte [of b] by simp
lemma b_div64: "unat (b::byte) div 64 < 4" using unat_byte [of b] by simp

lemma byte_join1:
  "of_nat (unat a div 4 * 4 + (unat a mod 4 * 16 + unat b div 16) div 16) = a"
  for a b :: byte
  by (simp only: div16 [OF b_div16] div_mult_mod_eq of_nat_unat ucast_id)

lemma byte_join2:
  "of_nat ((unat a mod 4 * 16 + unat b div 16) mod 16 * 16
     + (unat b mod 16 * 4 + unat c div 64) div 4) = b"
  for a b c :: byte
  by (simp only: mod16 [OF b_div16] div4 [OF b_div64] div_mult_mod_eq of_nat_unat ucast_id)

lemma byte_join2':
  "of_nat ((unat a mod 4 * 16 + unat b div 16) mod 16 * 16 + (unat b mod 16 * 4) div 4) = b"
  for a b :: byte
  by (simp only: mod16 [OF b_div16] nonzero_mult_div_cancel_right div_mult_mod_eq
      of_nat_unat ucast_id)

lemma byte_join3:
  "of_nat ((unat b mod 16 * 4 + unat c div 64) mod 4 * 64 + unat c mod 64) = c"
  for b c :: byte
  by (simp only: mod4 [OF b_div64] div_mult_mod_eq of_nat_unat ucast_id)

lemma byte_join1': "of_nat (unat a div 4 * 4 + (unat a mod 4 * 16) div 16) = a"
  for a :: byte
  by simp

lemma b64_groups_sextets: "b64_groups (b64_sextets b) = b"
  by (induction b rule: b64_sextets.induct)
     (simp_all only: b64_sextets.simps b64_groups.simps append.simps
        byte_join1 byte_join2 byte_join3 byte_join1' byte_join2')

lemma those_index_char:
  "\<forall>x\<in>set sx. x < 64 \<Longrightarrow> those (map b64_index (map b64_char sx)) = Some sx"
  by (induction sx) (simp_all add: b64_index_char)

lemma b64_padding_cases:
  "b64_padding b = [] \<or> b64_padding b = [b64_pad] \<or> b64_padding b = [b64_pad, b64_pad]"
  by (induction b rule: b64_padding.induct) simp_all

lemma length_b64_encode: "length (b64_encode b) mod 4 = 0"
  unfolding b64_encode_def
  by (induction b rule: b64_sextets.induct) simp_all

lemma strip_pad_chars:
  assumes "\<forall>x\<in>set sx. x < 64"
      and "p = [] \<or> p = [b64_pad] \<or> p = [b64_pad, b64_pad]"
  shows "strip_pad (map b64_char sx @ p) = map b64_char sx"
proof -
  have nl: "map b64_char sx \<noteq> [] \<Longrightarrow> last (map b64_char sx) \<noteq> b64_pad"
    using assms(1) by (simp add: last_map b64_char_not_pad)
  from assms(2) show ?thesis
    using nl by (auto simp: strip_pad_def Let_def butlast_append)
qed

lemma filter_ws_encode:
  "filter (\<lambda>c. \<not> ascii_whitespace c) (b64_encode b) = b64_encode b"
proof -
  have "\<not> ascii_whitespace b64_pad" by (simp add: ascii_whitespace_def b64_pad_def)
  moreover have "set (b64_padding b) \<subseteq> {b64_pad}"
    using b64_padding_cases [of b] by auto
  ultimately show ?thesis
    unfolding b64_encode_def
    by (auto simp: filter_id_conv b64_char_not_ws b64_sextets_lt)
qed

lemma atob_encode: "atob (b64_encode b) = Inr (map ucast b)"
proof -
  have lt: "\<forall>x\<in>set (b64_sextets b). x < 64" by (simp add: b64_sextets_lt)
  have sp: "strip_pad (b64_encode b) = map b64_char (b64_sextets b)"
    unfolding b64_encode_def by (rule strip_pad_chars [OF lt b64_padding_cases])
  show ?thesis
    unfolding atob_def
    by (simp add: filter_ws_encode length_b64_encode sp length_b64_sextets
        those_index_char [OF lt] b64_groups_sextets Let_def del: map_map)
qed

lemma btoa_bytes: "btoa (map ucast (b :: bytes)) = Inr (b64_encode b)"
proof -
  have "\<not> list_ex (\<lambda>c. 255 < unat c) (map ucast b :: jsstring)"
    by (auto simp: list_ex_iff unat_ucast_byte not_less unat_byte_le)
  then show ?thesis
    by (simp add: btoa_def map_ucast_byte_id del: map_map)
qed

lemma b64_encode_empty_iff: "b64_encode b = [] \<longleftrightarrow> b = []"
  unfolding b64_encode_def by (cases b rule: b64_sextets.cases) simp_all

lemma arrayBufferToBase64_ok: "b \<noteq> [] \<Longrightarrow> arrayBufferToBase64 b = Inr (b64_encode b)"
  by (simp add: arrayBufferToBase64_def btoa_bytes)

lemma arrayBufferToBase64_Inr:
  "arrayBufferToBase64 b = Inr s \<longleftrightarrow> b \<noteq> [] \<and> s = b64_encode b"
  by (auto simp: arrayBufferToBase64_def btoa_bytes)

lemma base64ToArrayBuffer_encode: "b \<noteq> [] \<Longrightarrow> base64ToArrayBuffer (b64_encode b) = Inr b"
  by (simp add: base64ToArrayBuffer_def atob_encode b64_encode_empty_iff map_ucast_byte_id
      del: map_map)

text \<open>
  Claim C10. For every non-empty byte array \<open>b\<close>, \<open>arrayBufferToBase64\<close> returns a string
  that \<open>base64ToArrayBuffer\<close> decodes to exactly \<open>b\<close>; for the empty byte array
  \<open>arrayBufferToBase64\<close> returns no encoding: it throws \<open>Error("Buffer vazio")\<close>.
\<close>

theorem transcoder_round_trip:
  "(b \<noteq> [] \<longrightarrow>
      (\<exists>s. arrayBufferToBase64 b = Inr s \<and> base64ToArrayBuffer s = Inr b))
   \<and> arrayBufferToBase64 [] = Inl Buffer_vazio"
  by (simp add: arrayBufferToBase64_ok base64ToArrayBuffer_encode)
     (simp add: arrayBufferToBase64_def)

theorem transcoder_round_trip_witness:
  "[104, 105 :: byte] \<noteq> []
   \<and> (\<exists>s. arrayBufferToBase64 [104, 105] = Inr s \<and> base64ToArrayBuffer s = Inr [104, 105])"
  using transcoder_round_trip [of "[104, 105]"] by simp

section \<open>Text codec: decoding what was encoded\<close>

declare utf8_decode.simps [simp del]

lemma unat_of_nat8: "k < 256 \<Longrightarrow> unat (of_nat k :: byte) = k"
  by (simp add: unat_of_nat)

lemma unat_codeunit: "unat (c :: codeunit) < 65536"
proof -
  have "unat c < 2 ^ LENGTH(16)" by (rule unsigned_less)
  then show ?thesis by simp
qed

lemma m32: "k < 32 \<Longrightarrow> (192 + k) mod 32 = (k::nat)"
  using mod_mult_self3 [of 6 32 k] by simp
lemma m16: "k < 16 \<Longrightarrow> (224 + k) mod 16 = (k::nat)"
  using mod_mult_self3 [of 14 16 k] by simp
lemma m8: "k < 8 \<Longrightarrow> (240 + k) mod 8 = (k::nat)"
  using mod_mult_self3 [of 30 8 k] by simp
lemma m64: "k < 64 \<Longrightarrow> (128 + k) mod 64 = (k::nat)"
  using mod_mult_self3 [of 2 64 k] by simp
lemma d1: "(cp::nat) div 64 * 64 + cp mod 64 = cp" by simp
lemma d2: "((cp::nat) div 4096 * 64 + cp div 64 mod 64) * 64 + cp mod 64 = cp"
proof -
  have "cp div 4096 = cp div 64 div 64" by (simp add: div_mult2_eq)
  then show ?thesis by simp
qed
lemma d3: "(((cp::nat) div 262144 * 64 + cp div 4096 mod 64) * 64 + cp div 64 mod 64) * 64 + cp mod 64 = cp"
proof -
  have "cp div 262144 = cp div 4096 div 64" by (simp add: div_mult2_eq)
  then have "cp div 262144 * 64 + cp div 4096 mod 64 = cp div 4096" by simp
  then show ?thesis by (simp only: d2)
qed

lemma step_ascii:
  "bytes_needed st = 0 \<Longrightarrow> unat b \<le> 0x7F \<Longrightarrow>
   utf8_decode st (b # bs) = unat b # utf8_decode st bs"
  by (simp add: utf8_decode.simps Let_def)

lemma step_lead2:
  "bytes_needed st = 0 \<Longrightarrow> 0xC2 \<le> unat b \<Longrightarrow> unat b \<le> 0xDF \<Longrightarrow>
   utf8_decode st (b # bs) = utf8_decode (st\<lparr>bytes_needed := 1, code_point := unat b mod 32\<rparr>) bs"
  by (simp add: utf8_decode.simps Let_def)

lemma step_lead3:
  "bytes_needed st = 0 \<Longrightarrow> 0xE0 \<le> unat b \<Longrightarrow> unat b \<le> 0xEF \<Longrightarrow>
   utf8_decode st (b # bs) =
   utf8_decode
     (st\<lparr>lower_boundary := (if unat b = 0xE0 then 0xA0 else lower_boundary st),
         upper_boundary := (if unat b = 0xED then 0x9F else upper_boundary st),
         bytes_needed := 2, code_point := unat b mod 16\<rparr>) bs"
  by (simp add: utf8_decode.simps Let_def)

lemma step_lead4:
  "bytes_needed st = 0 \<Longrightarrow> 0xF0 \<le> unat b \<Longrightarrow> unat b \<le> 0xF4 \<Longrightarrow>
   utf8_decode st (b # bs) =
   utf8_decode
     (st\<lparr>lower_boundary := (if unat b = 0xF0 then 0x90 else lower_boundary st),
         upper_boundary := (if unat b = 0xF4 then 0x8F else upper_boundary st),
         bytes_needed := 3, code_point := unat b mod 8\<rparr>) bs"
  by (simp add: utf8_decode.simps Let_def)

lemma step_cont_more:
  "bytes_needed st \<noteq> 0 \<Longrightarrow> lower_boundary st \<le> unat b \<Longrightarrow> unat b \<le> upper_boundary st \<Longrightarrow>
   bytes_seen st + 1 \<noteq> bytes_needed st \<Longrightarrow>
   utf8_decode st (b # bs) =
   utf8_decode
     (st\<lparr>lower_boundary := 0x80, upper_boundary := 0xBF,
         code_point := code_point st * 64 + unat b mod 64,
         bytes_seen := bytes_seen st + 1\<rparr>) bs"
  by (simp add: utf8_decode.simps Let_def)

lemma step_cont_last:
  "bytes_needed st \<noteq> 0 \<Longrightarrow> lower_boundary st \<le> unat b \<Longrightarrow> unat b \<le> upper_boundary st \<Longrightarrow>
   bytes_seen st + 1 = bytes_needed st \<Longrightarrow>
   utf8_decode st (b # bs) = (code_point st * 64 + unat b mod 64) # utf8_decode utf8_initial bs"
  by (simp add: utf8_decode.simps Let_def)

lemma utf8_decode_1:
  assumes "cp < 0x80"
  shows "utf8_decode utf8_initial (utf8_encode cp @ rest) = cp # utf8_decode utf8_initial rest"
  using assms
  by (simp add: utf8_encode_def step_ascii utf8_initial_def unat_of_nat8)

lemma utf8_decode_2:
  assumes "0x80 \<le> cp" "cp < 0x800"
  shows "utf8_decode utf8_initial (utf8_encode cp @ rest) = cp # utf8_decode utf8_initial rest"
proof -
  have k: "cp div 64 < 32" using assms by simp
  have b1: "unat (of_nat (0xC0 + cp div 64) :: byte) = 0xC0 + cp div 64"
    using k by (intro unat_of_nat8) simp
  have b2: "unat (of_nat (0x80 + cp mod 64) :: byte) = 0x80 + cp mod 64"
    by (intro unat_of_nat8) simp
  have e: "utf8_encode cp = [of_nat (0xC0 + cp div 64), of_nat (0x80 + cp mod 64)]"
    using assms by (simp add: utf8_encode_def)
  have "utf8_decode utf8_initial (utf8_encode cp @ rest) =
        utf8_decode (utf8_initial\<lparr>bytes_needed := 1, code_point := cp div 64\<rparr>)
          (of_nat (0x80 + cp mod 64) # rest)"
    unfolding e using assms k
    by (simp add: step_lead2 b1 m32 utf8_initial_def del: of_nat_add)
  also have "\<dots> = cp # utf8_decode utf8_initial rest"
    by (subst step_cont_last) (simp_all add: b2 m64 utf8_initial_def del: of_nat_add)
  finally show ?thesis .
qed


lemma utf8_decode_3:
  assumes "0x800 \<le> cp" "cp < 0x10000" "\<not> (0xD800 \<le> cp \<and> cp \<le> 0xDFFF)"
  shows "utf8_decode utf8_initial (utf8_encode cp @ rest) = cp # utf8_decode utf8_initial rest"
proof -
  define k where "k = cp div 4096"
  define l where "l = cp div 64 mod 64"
  define b1 :: byte where "b1 = of_nat (0xE0 + k)"
  define b2 :: byte where "b2 = of_nat (0x80 + l)"
  define b3 :: byte where "b3 = of_nat (0x80 + cp mod 64)"
  have k: "k < 16" using assms by (simp add: k_def)
  have l: "l < 64" by (simp add: l_def)
  have u1: "unat b1 = 0xE0 + k" unfolding b1_def using k by (intro unat_of_nat8) simp
  have u2: "unat b2 = 0x80 + l" unfolding b2_def using l by (intro unat_of_nat8) simp
  have u3: "unat b3 = 0x80 + cp mod 64" unfolding b3_def by (intro unat_of_nat8) simp
  have e: "utf8_encode cp = [b1, b2, b3]"
    using assms by (simp add: utf8_encode_def b1_def b2_def b3_def k_def l_def)
  have lo: "k = 0 \<Longrightarrow> 32 \<le> l"
  proof -
    assume "k = 0"
    then have "cp < 4096" by (simp add: k_def)
    then have "cp div 64 < 64" by simp
    moreover have "32 \<le> cp div 64" using assms(1) by simp
    ultimately show ?thesis by (simp add: l_def)
  qed
  have hi: "k = 13 \<Longrightarrow> l < 32"
  proof -
    assume "k = 13"
    then have "53248 \<le> cp" "cp < 57344" by (simp_all add: k_def)
    with assms(3) have c: "cp < 55296" by simp
    have "832 \<le> cp div 64" using \<open>53248 \<le> cp\<close> by simp
    moreover have "cp div 64 < 864" using c by simp
    ultimately have "cp div 64 mod 64 = cp div 64 - 832"
      using mod_mult_self3 [of 13 64 "cp div 64 - 832"] by simp
    then show ?thesis using \<open>cp div 64 < 864\<close> by (simp add: l_def)
  qed
  define st1 where
    "st1 = utf8_initial\<lparr>lower_boundary := (if k = 0 then 0xA0 else 0x80),
                          upper_boundary := (if k = 13 then 0x9F else 0xBF),
                          bytes_needed := 2, code_point := k\<rparr>"
  define st2 where
    "st2 = st1\<lparr>lower_boundary := 0x80, upper_boundary := 0xBF,
                  code_point := k * 64 + l, bytes_seen := 1\<rparr>"
  have "utf8_decode utf8_initial ([b1, b2, b3] @ rest) = utf8_decode st1 (b2 # b3 # rest)"
    using k by (simp add: step_lead3 u1 m16 st1_def utf8_initial_def)
  also have "\<dots> = utf8_decode st2 (b3 # rest)"
    using lo hi l
    by (subst step_cont_more) (auto simp: st1_def st2_def u2 m64 utf8_initial_def)
  also have "\<dots> = ((k * 64 + l) * 64 + cp mod 64) # utf8_decode utf8_initial rest"
    by (subst step_cont_last) (auto simp: st1_def st2_def u3 m64 utf8_initial_def)
  also have "(k * 64 + l) * 64 + cp mod 64 = cp"
    unfolding k_def l_def by (rule d2)
  finally show ?thesis unfolding e .
qed

lemma utf8_decode_4:
  assumes "0x10000 \<le> cp" "cp < 0x110000"
  shows "utf8_decode utf8_initial (utf8_encode cp @ rest) = cp # utf8_decode utf8_initial rest"
proof -
  define k where "k = cp div 262144"
  define l where "l = cp div 4096 mod 64"
  define m where "m = cp div 64 mod 64"
  define b1 :: byte where "b1 = of_nat (0xF0 + k)"
  define b2 :: byte where "b2 = of_nat (0x80 + l)"
  define b3 :: byte where "b3 = of_nat (0x80 + m)"
  define b4 :: byte where "b4 = of_nat (0x80 + cp mod 64)"
  have k: "k < 5" using assms by (simp add: k_def)
  have l: "l < 64" by (simp add: l_def)
  have m: "m < 64" by (simp add: m_def)
  have u1: "unat b1 = 0xF0 + k" unfolding b1_def using k by (intro unat_of_nat8) simp
  have u2: "unat b2 = 0x80 + l" unfolding b2_def using l by (intro unat_of_nat8) simp
  have u3: "unat b3 = 0x80 + m" unfolding b3_def using m by (intro unat_of_nat8) simp
  have u4: "unat b4 = 0x80 + cp mod 64" unfolding b4_def by (intro unat_of_nat8) simp
  have e: "utf8_encode cp = [b1, b2, b3, b4]"
    using assms by (simp add: utf8_encode_def b1_def b2_def b3_def b4_def k_def l_def m_def)
  have lo: "k = 0 \<Longrightarrow> 16 \<le> l"
  proof -
    assume "k = 0"
    then have "cp < 262144" by (simp add: k_def)
    then have "cp div 4096 < 64" by simp
    moreover have "16 \<le> cp div 4096" using assms(1) by simp
    ultimately show ?thesis by (simp add: l_def)
  qed
  have hi: "k = 4 \<Longrightarrow> l < 16"
  proof -
    assume "k = 4"
    then have "1048576 \<le> cp" by (simp add: k_def)
    then have "256 \<le> cp div 4096" by simp
    moreover have c: "cp div 4096 < 272" using assms(2) by simp
    ultimately have "cp div 4096 mod 64 = cp div 4096 - 256"
      using mod_mult_self3 [of 4 64 "cp div 4096 - 256"] by simp
    then show ?thesis using c by (simp add: l_def)
  qed
  define st1 where
    "st1 = utf8_initial\<lparr>lower_boundary := (if k = 0 then 0x90 else 0x80),
                          upper_boundary := (if k = 4 then 0x8F else 0xBF),
                          bytes_needed := 3, code_point := k\<rparr>"
  define st2 where
    "st2 = st1\<lparr>lower_boundary := 0x80, upper_boundary := 0xBF,
                  code_point := k * 64 + l, bytes_seen := 1\<rparr>"
  define st3 where
    "st3 = st2\<lparr>lower_boundary := 0x80, upper_boundary := 0xBF,
                  code_point := (k * 64 + l) * 64 + m, bytes_seen := 2\<rparr>"
  have "utf8_decode utf8_initial ([b1, b2, b3, b4] @ rest) = utf8_decode st1 (b2 # b3 # b4 # rest)"
    using k by (simp add: step_lead4 u1 m8 st1_def utf8_initial_def)
  also have "\<dots> = utf8_decode st2 (b3 # b4 # rest)"
    using lo hi l
    by (subst step_cont_more) (auto simp: st1_def st2_def u2 m64 utf8_initial_def)
  also have "\<dots> = utf8_decode st3 (b4 # rest)"
    using m
    by (subst step_cont_more)
       (auto simp: st1_def st2_def st3_def u3 m64 utf8_initial_def numeral_2_eq_2)
  also have "\<dots> = (((k * 64 + l) * 64 + m) * 64 + cp mod 64) # utf8_decode utf8_initial rest"
    by (subst step_cont_last)
       (auto simp: st1_def st2_def st3_def u4 m64 utf8_initial_def numeral_2_eq_2)
  also have "((k * 64 + l) * 64 + m) * 64 + cp mod 64 = cp"
    unfolding k_def l_def m_def by (rule d3)
  finally show ?thesis unfolding e .
qed

lemma utf8_decode_encode:
  "scalar cp \<Longrightarrow>
   utf8_decode utf8_initial (utf8_encode cp @ rest) = cp # utf8_decode utf8_initial rest"
  using utf8_decode_1 [of cp rest] utf8_decode_2 [of cp rest] utf8_decode_3 [of cp rest]
    utf8_decode_4 [of cp rest]
  unfolding scalar_def by linarith

lemma utf8_decode_concat:
  "\<forall>cp\<in>set cps. scalar cp \<Longrightarrow>
   utf8_decode utf8_initial (concat (map utf8_encode cps)) = cps"
proof (induction cps)
  case Nil
  show ?case by (simp add: utf8_decode.simps utf8_initial_def)
next
  case (Cons cp cps)
  then show ?case by (simp add: utf8_decode_encode)
qed

lemma surrogate_pair_scalar:
  assumes "high_surrogate c" "low_surrogate d"
  shows "scalar (0x10000 + (unat c - 0xD800) * 0x400 + (unat d - 0xDC00))"
proof -
  define h where "h = unat c - 0xD800"
  define l where "l = unat d - 0xDC00"
  have "h < 1024" using assms(1) unfolding h_def high_surrogate_def by linarith
  then have "h * 1024 \<le> 1023 * 1024" by simp
  moreover have "l < 1024" using assms(2) unfolding l_def low_surrogate_def by linarith
  ultimately show ?thesis
    unfolding scalar_def h_def [symmetric] l_def [symmetric] by simp
qed

lemma BMP_scalar:
  "\<not> high_surrogate c \<Longrightarrow> \<not> low_surrogate c \<Longrightarrow> scalar (unat c)"
  using unat_codeunit [of c]
  unfolding scalar_def high_surrogate_def low_surrogate_def by linarith

lemma replacement_scalar: "scalar 0xFFFD"
  by (simp add: scalar_def)

lemma scalar_values_scalar: "cp \<in> set (scalar_values s) \<Longrightarrow> scalar cp"
  by (induction s arbitrary: cp rule: scalar_values.induct)
     (auto simp: surrogate_pair_scalar BMP_scalar replacement_scalar split: if_splits)

lemma utf16_pair:
  assumes "high_surrogate c" "low_surrogate d"
  shows "utf16_encode (0x10000 + (unat c - 0xD800) * 0x400 + (unat d - 0xDC00)) = [c, d]"
proof -
  define h where "h = unat c - 0xD800"
  define l where "l = unat d - 0xDC00"
  have l: "l < 1024" using assms(2) unfolding l_def low_surrogate_def by linarith
  have hc: "0xD800 + h = unat c" using assms(1) unfolding h_def high_surrogate_def by linarith
  have ld: "0xDC00 + l = unat d" using assms(2) unfolding l_def low_surrogate_def by linarith
  have "(h * 1024 + l) div 1024 = h" "(h * 1024 + l) mod 1024 = l" using l by simp_all
  then have "utf16_encode (0x10000 + h * 0x400 + l) = [of_nat (0xD800 + h), of_nat (0xDC00 + l)]"
    by (simp add: utf16_encode_def del: of_nat_add)
  then show ?thesis
    unfolding hc ld unfolding h_def l_def by simp
qed

lemma utf16_bmp: "utf16_encode (unat (c :: codeunit)) = [c]"
  using unat_codeunit [of c] by (simp add: utf16_encode_def)

lemma utf16_scalar_values:
  "well_formed s \<Longrightarrow> concat (map utf16_encode (scalar_values s)) = s"
  by (induction s rule: scalar_values.induct)
     (simp_all add: utf16_pair utf16_bmp del: of_nat_add)

lemma TextDecoder_TextEncoder_raw:
  "TextDecoder_decode (TextEncoder_encode s) =
   concat (map utf16_encode (strip_BOM (scalar_values s)))"
  by (simp add: TextDecoder_decode_def TextEncoder_encode_def utf8_decode_concat
      scalar_values_scalar)

lemma scalar_values_Cons_BMP:
  "\<not> high_surrogate c \<Longrightarrow> \<not> low_surrogate c \<Longrightarrow>
   scalar_values (c # r) = unat c # scalar_values r"
  by (cases r) simp_all

lemma well_formed_Cons_BMP:
  "\<not> high_surrogate c \<Longrightarrow> well_formed (c # r) \<Longrightarrow> well_formed r"
  by (cases r) simp_all

lemma BOM_not_surrogate: "\<not> high_surrogate 0xFEFF" "\<not> low_surrogate 0xFEFF"
  by (simp_all add: high_surrogate_def low_surrogate_def)

lemma hd_scalar_values_cases:
  "scalar_values (c # r) = cp # cps \<Longrightarrow>
   (\<not> high_surrogate c \<and> \<not> low_surrogate c \<and> cp = unat c)
   \<or> ((high_surrogate c \<or> low_surrogate c) \<and> (cp = 0xFFFD \<or> 0x10000 \<le> cp))"
  by (cases r) (auto split: if_splits)

lemma unat_BOM: "unat (0xFEFF :: codeunit) = 0xFEFF"
  by simp

lemma hd_scalar_values_BOM:
  assumes "scalar_values (c # r) = cp # cps"
  shows "cp = 0xFEFF \<longleftrightarrow> c = 0xFEFF"
proof (cases "high_surrogate c \<or> low_surrogate c")
  case True
  with hd_scalar_values_cases [OF assms] have "cp = 0xFFFD \<or> 0x10000 \<le> cp" by blast
  then have "cp \<noteq> 0xFEFF" by auto
  moreover have "c \<noteq> 0xFEFF" using True BOM_not_surrogate by auto
  ultimately show ?thesis by simp
next
  case False
  with hd_scalar_values_cases [OF assms] have "cp = unat c" by blast
  then show ?thesis by (simp add: word_unat_eq_iff)
qed

lemma TextDecoder_TextEncoder:
  assumes "well_formed s"
  shows "TextDecoder_decode (TextEncoder_encode s) = strip_leading_BOM s"
proof (cases s)
  case Nil
  then show ?thesis
    by (simp add: TextDecoder_TextEncoder_raw strip_BOM_def strip_leading_BOM_def)
next
  case (Cons c r)
  show ?thesis
  proof (cases "c = 0xFEFF")
    case True
    have "scalar_values s = 0xFEFF # scalar_values r"
      unfolding Cons True using scalar_values_Cons_BMP [OF BOM_not_surrogate] by simp
    moreover have "well_formed r"
      using assms well_formed_Cons_BMP [OF BOM_not_surrogate(1)] unfolding Cons True by simp
    ultimately show ?thesis
      by (simp add: TextDecoder_TextEncoder_raw strip_BOM_def strip_leading_BOM_def Cons True
          utf16_scalar_values)
  next
    case False
    have "strip_BOM (scalar_values s) = scalar_values s"
    proof (cases "scalar_values s")
      case Nil
      then show ?thesis by (simp add: strip_BOM_def)
    next
      case (Cons cp cps)
      with hd_scalar_values_BOM [of c r cp cps] False \<open>s = c # r\<close>
      show ?thesis by (simp add: strip_BOM_def)
    qed
    then show ?thesis
      using assms False
      by (simp add: TextDecoder_TextEncoder_raw strip_leading_BOM_def Cons utf16_scalar_values)
  qed
qed

section \<open>Unfolding the operations\<close>

lemma andThen_Inr_iff: "andThen r f = Inr y \<longleftrightarrow> (\<exists>x. r = Inr x \<and> f x = Inr y)"
  by (cases r) simp_all

lemma andThenS_Inr_iff:
  "andThenS r f = (Inr y, s') \<longleftrightarrow> (\<exists>x s. r = (Inr x, s) \<and> f x s = (Inr y, s'))"
proof (cases r)
  case (Pair a s0)
  then show ?thesis by (cases a) simp_all
qed

lemma strip_leading_BOM_id: "\<not> begins_with_BOM s \<Longrightarrow> strip_leading_BOM s = s"
  by (cases s) (simp_all add: begins_with_BOM_def strip_leading_BOM_def)

lemma TextDecoder_TextEncoder_id:
  "well_formed s \<Longrightarrow> \<not> begins_with_BOM s \<Longrightarrow> TextDecoder_decode (TextEncoder_encode s) = s"
  by (simp add: TextDecoder_TextEncoder strip_leading_BOM_id)

lemma js_colon: "js '':'' = [58]"
  by (simp add: js_def)

lemma b64_char_unat_cases:
  "n < 64 \<Longrightarrow> unat (b64_char n) \<in> {65..90} \<union> {97..122} \<union> {48..57} \<union> {43, 47}"
  by (auto simp: unat_b64_char)

lemma b64_encode_chars:
  assumes "c \<in> set (b64_encode b)"
  shows "unat c \<in> {65..90} \<union> {97..122} \<union> {48..57} \<union> {43, 47, 61}"
proof -
  from assms consider n where "n \<in> set (b64_sextets b)" "c = b64_char n" | "c \<in> set (b64_padding b)"
    unfolding b64_encode_def by auto
  then show ?thesis
  proof cases
    case 1
    with b64_char_unat_cases [of n] b64_sextets_lt [of n b] show ?thesis by auto
  next
    case 2
    with b64_padding_cases [of b] have "c = b64_pad" by auto
    then show ?thesis by (simp add: b64_pad_def)
  qed
qed

lemma colon_notin_b64: "58 \<notin> set (b64_encode b)"
  using b64_encode_chars [of 58 b] by auto

lemma b64_encode_no_surrogate:
  "c \<in> set (b64_encode b) \<Longrightarrow> \<not> high_surrogate c \<and> \<not> low_surrogate c"
  using b64_encode_chars [of c b] by (auto simp: high_surrogate_def low_surrogate_def)

lemma well_formed_no_surrogate:
  "\<forall>c\<in>set s. \<not> high_surrogate c \<and> \<not> low_surrogate c \<Longrightarrow> well_formed s"
  by (induction s rule: well_formed.induct) simp_all

lemma well_formed_b64_encode: "well_formed (b64_encode b)"
  by (rule well_formed_no_surrogate) (simp add: b64_encode_no_surrogate)

lemma no_BOM_b64_encode: "\<not> begins_with_BOM (b64_encode b)"
proof (cases "b64_encode b")
  case Nil
  then show ?thesis by (simp add: begins_with_BOM_def)
next
  case (Cons c r)
  then have "c \<in> set (b64_encode b)" by simp
  from b64_encode_chars [OF this] have "c \<noteq> 0xFEFF" by auto
  then show ?thesis by (simp add: begins_with_BOM_def Cons)
qed

lemma split_no_sep: "sep \<notin> set t \<Longrightarrow> split sep t = [t]"
  by (induction t) auto

lemma split_append: "sep \<notin> set t \<Longrightarrow> split sep (t @ sep # u) = t # split sep u"
  by (induction t) (auto simp: split_no_sep)

lemma split_b64: "split 58 (b64_encode a @ 58 # b64_encode b) = [b64_encode a, b64_encode b]"
  by (simp add: split_append split_no_sep colon_notin_b64)

lemma generateKeyPair_Inr:
  assumes "generateKeyPair P s = (Inr kp, s')"
  obtains priv pub raw where "generateKey_ECDH P s = (Inr (priv, pub), s')"
    and "exportKey_raw P pub = Inr raw"
    and "kp = \<lparr>privateKey = priv, publicKey = pub, publicKeyRaw = raw\<rparr>"
  using assms
  by (auto simp: generateKeyPair_def andThen_Inr_iff split: prod.splits)

lemma encryptMessage_Inr:
  assumes "encryptMessage P message K s = (Inr e, s')"
  obtains n c where "getRandomValues P 12 s = (n, s')"
    and "encrypt_AES_GCM P n K (TextEncoder_encode message) = Inr c"
    and "c \<noteq> []" and "n \<noteq> []"
    and "e = \<lparr>encryptedData = b64_encode c, nonce = b64_encode n\<rparr>"
  using assms
  by (auto simp: encryptMessage_def andThen_Inr_iff arrayBufferToBase64_Inr split: prod.splits)

lemma decryptMessage_encoded:
  assumes "c \<noteq> []" "n \<noteq> []"
  shows "decryptMessage P (b64_encode c) (b64_encode n) K =
         (case decrypt_AES_GCM P n K c of
            Inl e \<Rightarrow> Inl Falha_na_descriptografia
          | Inr d \<Rightarrow> Inr (TextDecoder_decode d))"
  using assms
  by (simp add: decryptMessage_def base64ToArrayBuffer_encode split: sum.splits)

lemma decrypt_encrypt_message_raw:
  assumes "valid_AES_GCM_key P K" and "encryptMessage P message K s = (Inr e, s')"
  shows "decryptMessage P (encryptedData e) (nonce e) K =
         Inr (TextDecoder_decode (TextEncoder_encode message))"
proof -
  from assms(2) obtain n c where
    enc: "encrypt_AES_GCM P n K (TextEncoder_encode message) = Inr c"
    and ne: "c \<noteq> []" "n \<noteq> []"
    and e: "e = \<lparr>encryptedData = b64_encode c, nonce = b64_encode n\<rparr>"
    by (rule encryptMessage_Inr)
  from assms(1) enc have "decrypt_AES_GCM P n K c = Inr (TextEncoder_encode message)"
    by (simp add: valid_AES_GCM_key_def)
  then show ?thesis
    using ne by (simp add: e decryptMessage_encoded)
qed

text \<open>
  Claim C1, as the code has it. For every valid AES-GCM key \<open>K\<close> and every plaintext that
  is a well-formed string (no unpaired surrogate) and does not begin with U+FEFF,
  decrypting with \<open>K\<close> the envelope that \<open>encryptMessage\<close> produced under \<open>K\<close> returns
  exactly the plaintext.
\<close>

theorem decryptMessage_encryptMessage:
  assumes "valid_AES_GCM_key P K"
    and "well_formed message" and "\<not> begins_with_BOM message"
    and "encryptMessage P message K s = (Inr e, s')"
  shows "decryptMessage P (encryptedData e) (nonce e) K = Inr message"
  using decrypt_encrypt_message_raw [OF assms(1,4)] assms(2,3)
  by (simp add: TextDecoder_TextEncoder_id)

lemma encryptGroupKeyForMember_Inr:
  assumes "encryptGroupKeyForMember P G mraw s = (Inr w, s')"
  obtains epriv epub eraw s1 mpub z wrapKey n c where
    "generateKey_ECDH P s = (Inr (epriv, epub), s1)"
    "exportKey_raw P epub = Inr eraw"
    "importKey_raw_ECDH P mraw = Inr mpub"
    "deriveBits_ECDH P mpub epriv 256 = Inr z"
    "deriveAESKey P z = Inr wrapKey"
    "getRandomValues P 12 s1 = (n, s')"
    "encrypt_AES_GCM P n wrapKey (TextEncoder_encode (b64_encode G)) = Inr c"
    "G \<noteq> []" "c \<noteq> []" "n \<noteq> []" "eraw \<noteq> []"
    "w = \<lparr>encryptedGroupKey = b64_encode c @ 58 # b64_encode n,
          ephemeralPublicKey = b64_encode eraw\<rparr>"
proof -
  from assms obtain kp s1 where kp: "generateKeyPair P s = (Inr kp, s1)"
    and rest: "andThenS
       (andThen (importPublicKey P mraw) (\<lambda>memberPublicKey.
        andThen (computeSharedSecret P (privateKey kp) memberPublicKey)
          (\<lambda>sharedSecret.
        andThen (deriveAESKey P sharedSecret) (\<lambda>wrapKey.
        andThen (arrayBufferToBase64 G) (\<lambda>groupKeyB64.
        Inr (wrapKey, TextEncoder_encode groupKeyB64))))), s1)
       (\<lambda>(wrapKey, groupKeyBytes) s1.
          (case getRandomValues P 12 s1 of
             (nonce', s2) \<Rightarrow>
               (andThen (encrypt_AES_GCM P nonce' wrapKey groupKeyBytes) (\<lambda>encryptedData'.
                andThen (arrayBufferToBase64 encryptedData') (\<lambda>a.
                andThen (arrayBufferToBase64 nonce') (\<lambda>b.
                andThen (arrayBufferToBase64 (publicKeyRaw kp)) (\<lambda>c.
                Inr \<lparr>encryptedGroupKey = a @ js '':'' @ b, ephemeralPublicKey = c\<rparr>)))),
                s2))) = (Inr w, s')"
    unfolding encryptGroupKeyForMember_def andThenS_Inr_iff by blast
  from kp obtain epriv epub eraw where g: "generateKey_ECDH P s = (Inr (epriv, epub), s1)"
    "exportKey_raw P epub = Inr eraw"
    "kp = \<lparr>privateKey = epriv, publicKey = epub, publicKeyRaw = eraw\<rparr>"
    by (rule generateKeyPair_Inr)
  from rest obtain wrapKey gkb where
    pre: "andThen (importPublicKey P mraw) (\<lambda>memberPublicKey.
        andThen (computeSharedSecret P (privateKey kp) memberPublicKey)
          (\<lambda>sharedSecret.
        andThen (deriveAESKey P sharedSecret) (\<lambda>wrapKey.
        andThen (arrayBufferToBase64 G) (\<lambda>groupKeyB64.
        Inr (wrapKey, TextEncoder_encode groupKeyB64))))) = Inr (wrapKey, gkb)"
    and post: "(case getRandomValues P 12 s1 of
             (nonce', s2) \<Rightarrow>
               (andThen (encrypt_AES_GCM P nonce' wrapKey gkb) (\<lambda>encryptedData'.
                andThen (arrayBufferToBase64 encryptedData') (\<lambda>a.
                andThen (arrayBufferToBase64 nonce') (\<lambda>b.
                andThen (arrayBufferToBase64 (publicKeyRaw kp)) (\<lambda>c.
                Inr \<lparr>encryptedGroupKey = a @ js '':'' @ b, ephemeralPublicKey = c\<rparr>)))),
                s2)) = (Inr w, s')"
    by (auto simp: andThenS_Inr_iff)
  obtain n s2 where r: "getRandomValues P 12 s1 = (n, s2)"
    by (cases "getRandomValues P 12 s1")
  from post r have s2: "s2 = s'"
    and body: "andThen (encrypt_AES_GCM P n wrapKey gkb) (\<lambda>encryptedData'.
                andThen (arrayBufferToBase64 encryptedData') (\<lambda>a.
                andThen (arrayBufferToBase64 n) (\<lambda>b.
                andThen (arrayBufferToBase64 (publicKeyRaw kp)) (\<lambda>c.
                Inr \<lparr>encryptedGroupKey = a @ js '':'' @ b, ephemeralPublicKey = c\<rparr>)))) = Inr w"
    by simp_all
  from pre obtain mpub z where p: "importKey_raw_ECDH P mraw = Inr mpub"
    "deriveBits_ECDH P mpub epriv 256 = Inr z" "deriveAESKey P z = Inr wrapKey"
    "G \<noteq> []" "gkb = TextEncoder_encode (b64_encode G)"
    by (auto simp: andThen_Inr_iff arrayBufferToBase64_Inr importPublicKey_def
        computeSharedSecret_def g(3))
  from body obtain c where b: "encrypt_AES_GCM P n wrapKey gkb = Inr c" "c \<noteq> []" "n \<noteq> []"
    "eraw \<noteq> []"
    "w = \<lparr>encryptedGroupKey = b64_encode c @ 58 # b64_encode n,
          ephemeralPublicKey = b64_encode eraw\<rparr>"
    by (auto simp: andThen_Inr_iff arrayBufferToBase64_Inr js_colon g(3))
  show ?thesis
    using g(1,2) p r b unfolding s2 by (intro that [of epriv epub s1 eraw mpub z wrapKey n c]) simp_all
qed

section \<open>Group keys: unwrapping what was wrapped\<close>

lemma decryptGroupKey_parts:
  assumes "split 58 e = [x, y]" "x \<noteq> []" "y \<noteq> []"
  shows "decryptGroupKey P e pk priv =
     andThen (base64ToArrayBuffer pk) (\<lambda>ephemeralPublicKeyRaw.
     andThen (importPublicKey P ephemeralPublicKeyRaw) (\<lambda>ephemeralPublicKey'.
     andThen (computeSharedSecret P priv ephemeralPublicKey') (\<lambda>sharedSecret.
     andThen (deriveAESKey P sharedSecret) (\<lambda>wrapKey.
     andThen (base64ToArrayBuffer x) (\<lambda>encryptedBuffer.
     andThen (base64ToArrayBuffer y) (\<lambda>nonceBuffer.
     andThen (decrypt_AES_GCM P nonceBuffer wrapKey encryptedBuffer) (\<lambda>decryptedData.
     base64ToArrayBuffer (TextDecoder_decode decryptedData))))))))"
  using assms by (simp add: decryptGroupKey_def)

text \<open>
  Claim C2. For every group key \<open>G\<close> and every valid member key pair (private key \<open>priv\<close>,
  raw public key \<open>raw\<close>), unwrapping with \<open>priv\<close> the envelope that
  \<open>encryptGroupKeyForMember\<close> produced for \<open>raw\<close> recovers exactly the bytes of \<open>G\<close>.
\<close>

theorem decryptGroupKey_encryptGroupKeyForMember:
  assumes "valid_key_pair P priv raw"
    and "\<forall>k. valid_AES_GCM_key P k"
    and "encryptGroupKeyForMember P G raw s = (Inr w, s')"
  shows "decryptGroupKey P (encryptedGroupKey w) (ephemeralPublicKey w) priv = Inr G"
proof -
  from assms(3) obtain epriv epub eraw s1 mpub z wrapKey n c where
    g: "generateKey_ECDH P s = (Inr (epriv, epub), s1)" "exportKey_raw P epub = Inr eraw"
    and m: "importKey_raw_ECDH P raw = Inr mpub"
    and z: "deriveBits_ECDH P mpub epriv 256 = Inr z"
    and k: "deriveAESKey P z = Inr wrapKey"
    and enc: "encrypt_AES_GCM P n wrapKey (TextEncoder_encode (b64_encode G)) = Inr c"
    and ne: "G \<noteq> []" "c \<noteq> []" "n \<noteq> []" "eraw \<noteq> []"
    and w: "w = \<lparr>encryptedGroupKey = b64_encode c @ 58 # b64_encode n,
                 ephemeralPublicKey = b64_encode eraw\<rparr>"
    by (rule encryptGroupKeyForMember_Inr)
  from assms(1) g m obtain epub' where
    i: "importKey_raw_ECDH P eraw = Inr epub'"
    and "deriveBits_ECDH P epub' priv 256 = deriveBits_ECDH P mpub epriv 256"
    unfolding valid_key_pair_def by blast
  with z have z': "deriveBits_ECDH P epub' priv 256 = Inr z" by simp
  from assms(2) enc have dec:
    "decrypt_AES_GCM P n wrapKey c = Inr (TextEncoder_encode (b64_encode G))"
    by (simp add: valid_AES_GCM_key_def)
  have parts: "split 58 (encryptedGroupKey w) = [b64_encode c, b64_encode n]"
    by (simp add: w split_b64)
  have "decryptGroupKey P (encryptedGroupKey w) (ephemeralPublicKey w) priv =
        base64ToArrayBuffer (TextDecoder_decode (TextEncoder_encode (b64_encode G)))"
    using ne
    by (subst decryptGroupKey_parts [OF parts])
       (simp_all add: b64_encode_empty_iff w base64ToArrayBuffer_encode importPublicKey_def
          computeSharedSecret_def i z' k dec)
  then show ?thesis
    using ne
    by (simp add: TextDecoder_TextEncoder_id well_formed_b64_encode no_BOM_b64_encode
        base64ToArrayBuffer_encode)
qed

section \<open>The private key under a password\<close>

lemma encryptPrivateKey_Inr:
  assumes "encryptPrivateKey P S W s = (Inr r, s')"
  obtains sl s1 k i j c where
    "getRandomValues P 16 s = (sl, s1)"
    "deriveKeyFromPassword P W sl = Inr k"
    "getRandomValues P 12 s1 = (i, s')"
    "exportKey_jwk P S = Inr j"
    "encrypt_AES_GCM P i k (TextEncoder_encode (JSON_stringify P j)) = Inr c"
    "c \<noteq> []" "sl \<noteq> []" "i \<noteq> []"
    "r = \<lparr>encryptedPrivateKey = b64_encode c, salt = b64_encode sl, iv = b64_encode i\<rparr>"
proof -
  obtain sl s1 where r1: "getRandomValues P 16 s = (sl, s1)"
    by (cases "getRandomValues P 16 s")
  with assms obtain k where k: "deriveKeyFromPassword P W sl = Inr k"
    and rest: "(case getRandomValues P 12 s1 of
               (iv', s2) \<Rightarrow>
                 (andThen (exportKey_jwk P S) (\<lambda>privateKeyJWK.
                  andThen
                    (encrypt_AES_GCM P iv' k
                       (TextEncoder_encode (JSON_stringify P privateKeyJWK)))
                    (\<lambda>encryptedData'.
                  andThen (arrayBufferToBase64 encryptedData') (\<lambda>a.
                  andThen (arrayBufferToBase64 sl) (\<lambda>b.
                  andThen (arrayBufferToBase64 iv') (\<lambda>c.
                  Inr \<lparr>encryptedPrivateKey = a, salt = b, iv = c\<rparr>))))), s2)) = (Inr r, s')"
    by (auto simp: encryptPrivateKey_def andThenS_Inr_iff)
  obtain i s2 where r2: "getRandomValues P 12 s1 = (i, s2)"
    by (cases "getRandomValues P 12 s1")
  from rest r2 have s2: "s2 = s'"
    and body: "andThen (exportKey_jwk P S) (\<lambda>privateKeyJWK.
                  andThen
                    (encrypt_AES_GCM P i k
                       (TextEncoder_encode (JSON_stringify P privateKeyJWK)))
                    (\<lambda>encryptedData'.
                  andThen (arrayBufferToBase64 encryptedData') (\<lambda>a.
                  andThen (arrayBufferToBase64 sl) (\<lambda>b.
                  andThen (arrayBufferToBase64 i) (\<lambda>c.
                  Inr \<lparr>encryptedPrivateKey = a, salt = b, iv = c\<rparr>))))) = Inr r"
    by simp_all
  from body obtain j c where "exportKey_jwk P S = Inr j"
    "encrypt_AES_GCM P i k (TextEncoder_encode (JSON_stringify P j)) = Inr c"
    "c \<noteq> []" "sl \<noteq> []" "i \<noteq> []"
    "r = \<lparr>encryptedPrivateKey = b64_encode c, salt = b64_encode sl, iv = b64_encode i\<rparr>"
    by (auto simp: andThen_Inr_iff arrayBufferToBase64_Inr)
  with r1 k r2 show ?thesis unfolding s2 by (intro that [of sl s1 k i j c]) simp_all
qed

lemma decryptPrivateKey_encoded:
  assumes "c \<noteq> []" "sl \<noteq> []" "i \<noteq> []"
  shows "decryptPrivateKey P (b64_encode c) (b64_encode sl) (b64_encode i) W =
     catch
       (andThen (deriveKeyFromPassword P W sl) (\<lambda>derivedKey.
        andThen (decrypt_AES_GCM P i derivedKey c) (\<lambda>decryptedData.
        andThen (JSON_parse P (TextDecoder_decode decryptedData)) (\<lambda>privateKeyJWK.
        importKey_jwk_ECDH P privateKeyJWK))))
       (\<lambda>error.
          if error_name error = ''OperationError'' then Inl Senha_incorreta
          else Inl (Falha_ao_decifrar_chave_privada error))"
  using assms by (simp add: decryptPrivateKey_def base64ToArrayBuffer_encode)

text \<open>
  Claim C3. For every password \<open>W\<close> and every extractable private key \<open>S\<close>, decrypting with
  \<open>W\<close> the record that \<open>encryptPrivateKey\<close> produced from \<open>S\<close> and \<open>W\<close> returns \<open>S\<close>.
\<close>

theorem decryptPrivateKey_encryptPrivateKey:
  assumes "\<forall>k. valid_AES_GCM_key P k"
    and "JSON_round_trip P"
    and "exportable_private_key P S"
    and "encryptPrivateKey P S W s = (Inr r, s')"
  shows "decryptPrivateKey P (encryptedPrivateKey r) (salt r) (iv r) W = Inr S"
proof -
  from assms(4) obtain sl k i j c where
    k: "deriveKeyFromPassword P W sl = Inr k"
    and j: "exportKey_jwk P S = Inr j"
    and enc: "encrypt_AES_GCM P i k (TextEncoder_encode (JSON_stringify P j)) = Inr c"
    and ne: "c \<noteq> []" "sl \<noteq> []" "i \<noteq> []"
    and r: "r = \<lparr>encryptedPrivateKey = b64_encode c, salt = b64_encode sl, iv = b64_encode i\<rparr>"
    by (rule encryptPrivateKey_Inr)
  from assms(1) enc have dec:
    "decrypt_AES_GCM P i k c = Inr (TextEncoder_encode (JSON_stringify P j))"
    by (simp add: valid_AES_GCM_key_def)
  from assms(2) have t: "TextDecoder_decode (TextEncoder_encode (JSON_stringify P j)) = JSON_stringify P j"
    and p: "JSON_parse P (JSON_stringify P j) = Inr j"
    by (simp_all add: JSON_round_trip_def TextDecoder_TextEncoder_id)
  from assms(3) j have imp: "importKey_jwk_ECDH P j = Inr S"
    by (simp add: exportable_private_key_def)
  show ?thesis
    unfolding r using ne
    by (simp add: decryptPrivateKey_encoded k dec t p imp)
qed

text \<open>
  Claim C5. Whenever the three fields of a record decode, the key is derived from the
  password, and the platform's \<open>decrypt\<close> fails under that key (its failure is named
  \<open>OperationError\<close>), \<open>decryptPrivateKey\<close> throws \<open>Error("Senha incorreta")\<close>: it returns no
  key, and the error is not the one \<open>decryptMessage\<close> throws.
\<close>

theorem decryptPrivateKey_wrong_password:
  assumes "base64ToArrayBuffer e = Inr c"
    and "base64ToArrayBuffer sl = Inr saltBytes"
    and "base64ToArrayBuffer i = Inr ivBytes"
    and "deriveKeyFromPassword P W saltBytes = Inr k"
    and "decrypt_AES_GCM P ivBytes k c = Inl err"
    and "error_name err = ''OperationError''"
  shows "decryptPrivateKey P e sl i W = Inl Senha_incorreta"
  using assms by (simp add: decryptPrivateKey_def)

section \<open>The small platform satisfies what the operations need\<close>

lemma replicate_numeral: "replicate (numeral k) x = x # replicate (pred_numeral k) x"
  by (simp add: numeral_eq_Suc)

lemma toy_simps:
  "getRandomValues toy = toy_getRandomValues"
  "generateKey_ECDH toy = toy_generateKey_ECDH"
  "generateKey_AES_GCM toy = toy_generateKey_AES_GCM"
  "exportKey_raw toy = toy_exportKey_raw"
  "exportKey_jwk toy = toy_exportKey_jwk"
  "importKey_raw_ECDH toy = toy_importKey_raw_ECDH"
  "importKey_raw_HKDF toy = toy_importKey_raw_secret"
  "importKey_raw_PBKDF2 toy = toy_importKey_raw_secret"
  "importKey_raw_AES_GCM toy = toy_importKey_raw_AES_GCM"
  "importKey_jwk_ECDH toy = toy_importKey_jwk_ECDH"
  "deriveBits_ECDH toy = toy_deriveBits_ECDH"
  "deriveKey_HKDF toy = toy_deriveKey_HKDF"
  "deriveKey_PBKDF2 toy = toy_deriveKey_PBKDF2"
  "encrypt_AES_GCM toy = toy_encrypt_AES_GCM"
  "decrypt_AES_GCM toy = toy_decrypt_AES_GCM"
  "JSON_stringify toy = toy_JSON_stringify"
  "JSON_parse toy = toy_JSON_parse"
  by (simp_all add: toy_def)

declare toy_encrypt_AES_GCM.simps [simp del] toy_decrypt_AES_GCM.simps [simp del]

lemma length_toy_tag: "length (toy_tag k n c) = 16"
  by (simp add: toy_tag_def)

lemma toy_decrypt_encrypt:
  "toy_encrypt_AES_GCM n k p = Inr c \<Longrightarrow> toy_decrypt_AES_GCM n k c = Inr p"
  by (cases k)
     (auto simp: toy_encrypt_AES_GCM.simps toy_decrypt_AES_GCM.simps Let_def length_toy_tag
        comp_def)

lemma toy_valid_key: "valid_AES_GCM_key toy k"
  by (simp add: valid_AES_GCM_key_def toy_simps toy_decrypt_encrypt)

lemma toy_random_12: "toy_getRandomValues 12 s = (replicate 12 (of_nat (s + 1)), s + 1)"
  by (simp add: toy_getRandomValues_def)

lemma js_hi: "js ''hi'' = [104, 105]"
  by (simp add: js_def)

lemma TextEncoder_hi: "TextEncoder_encode [104, 105] = [104, 105]"
  by (simp add: TextEncoder_encode_def utf8_encode_def high_surrogate_def low_surrogate_def)

lemma toy_encrypt_hi:
  "toy_encrypt_AES_GCM (replicate 12 1) K0 [104, 105] =
   Inr [239, 0, 0, 0, 0, 0, 0, 0, 0, 0, 0, 0, 0, 0, 0, 0, 110, 111]"
  by (simp add: toy_encrypt_AES_GCM.simps K0_def toy_tag_def replicate_numeral)

lemma b64_hi:
  "b64_encode [239, 0, 0, 0, 0, 0, 0, 0, 0, 0, 0, 0, 0, 0, 0, 0, 110, 111] =
   js ''7wAAAAAAAAAAAAAAAAAAAG5v''"
  by (simp add: b64_encode_def b64_char_def js_def)

lemma b64_nonce_1: "b64_encode (replicate 12 1) = js ''AQEBAQEBAQEBAQEB''"
  by (simp add: b64_encode_def b64_char_def js_def replicate_numeral)

lemma toy_encryptMessage_hi:
  "encryptMessage toy (js ''hi'') K0 0 =
   (Inr \<lparr>encryptedData = js ''7wAAAAAAAAAAAAAAAAAAAG5v'', nonce = js ''AQEBAQEBAQEBAQEB''\<rparr>, 1)"
  by (simp add: encryptMessage_def toy_simps toy_random_12 js_hi TextEncoder_hi toy_encrypt_hi
      arrayBufferToBase64_ok b64_hi [unfolded js_hi] b64_nonce_1)

lemma well_formed_hi: "well_formed (js ''hi'')" "\<not> begins_with_BOM (js ''hi'')"
  by (simp_all add: js_hi high_surrogate_def low_surrogate_def begins_with_BOM_def)

theorem decryptMessage_encryptMessage_witness:
  "valid_AES_GCM_key toy K0 \<and> well_formed (js ''hi'') \<and> \<not> begins_with_BOM (js ''hi'')
   \<and> encryptMessage toy (js ''hi'') K0 0 =
       (Inr \<lparr>encryptedData = js ''7wAAAAAAAAAAAAAAAAAAAG5v'', nonce = js ''AQEBAQEBAQEBAQEB''\<rparr>, 1)
   \<and> decryptMessage toy (js ''7wAAAAAAAAAAAAAAAAAAAG5v'') (js ''AQEBAQEBAQEBAQEB'') K0
       = Inr (js ''hi'')"
  using decryptMessage_encryptMessage
    [OF toy_valid_key well_formed_hi toy_encryptMessage_hi]
  by (simp add: toy_valid_key well_formed_hi toy_encryptMessage_hi)

text \<open>
  What the claim as written misses. An unpaired surrogate does not survive
  \<open>TextEncoder\<close>: the one-character plaintext U+D83D (half of an emoji) is encrypted as the
  bytes of U+FFFD, and decrypting the envelope returns U+FFFD.
\<close>

lemma TextEncoder_D83D: "TextEncoder_encode [0xD83D] = [239, 191, 189]"
  by (simp add: TextEncoder_encode_def utf8_encode_def high_surrogate_def)

lemma toy_encrypt_D83D:
  "toy_encrypt_AES_GCM (replicate 12 1) K0 [239, 191, 189] =
   Inr [143, 0, 0, 0, 0, 0, 0, 0, 0, 0, 0, 0, 0, 0, 0, 0, 245, 197, 195]"
  by (simp add: toy_encrypt_AES_GCM.simps K0_def toy_tag_def replicate_numeral)

lemma b64_D83D:
  "b64_encode [143, 0, 0, 0, 0, 0, 0, 0, 0, 0, 0, 0, 0, 0, 0, 0, 245, 197, 195] =
   js ''jwAAAAAAAAAAAAAAAAAAAPXFww==''"
  by (simp add: b64_encode_def b64_char_def b64_pad_def js_def)

lemma toy_encryptMessage_D83D:
  "encryptMessage toy [0xD83D] K0 0 =
   (Inr \<lparr>encryptedData = js ''jwAAAAAAAAAAAAAAAAAAAPXFww=='', nonce = js ''AQEBAQEBAQEBAQEB''\<rparr>, 1)"
  by (simp add: encryptMessage_def toy_simps toy_random_12 TextEncoder_D83D toy_encrypt_D83D
      arrayBufferToBase64_ok b64_D83D b64_nonce_1)

lemma TextDecoder_TextEncoder_D83D:
  "TextDecoder_decode (TextEncoder_encode [0xD83D]) = [0xFFFD]"
  by (simp add: TextDecoder_TextEncoder_raw high_surrogate_def strip_BOM_def utf16_encode_def)

theorem decryptMessage_encryptMessage_unpaired_surrogate:
  "valid_AES_GCM_key toy K0
   \<and> encryptMessage toy [0xD83D] K0 0 =
       (Inr \<lparr>encryptedData = js ''jwAAAAAAAAAAAAAAAAAAAPXFww=='', nonce = js ''AQEBAQEBAQEBAQEB''\<rparr>, 1)
   \<and> decryptMessage toy (js ''jwAAAAAAAAAAAAAAAAAAAPXFww=='') (js ''AQEBAQEBAQEBAQEB'') K0
       = Inr [0xFFFD]
   \<and> [0xFFFD] \<noteq> [0xD83D :: codeunit]"
  using decrypt_encrypt_message_raw [OF toy_valid_key toy_encryptMessage_D83D]
  by (simp add: toy_valid_key toy_encryptMessage_D83D TextDecoder_TextEncoder_D83D)

text \<open>
  And a U+FEFF at the beginning of the plaintext is dropped by \<open>TextDecoder\<close>: the envelope
  of U+FEFF followed by a well-formed \<open>m\<close> decrypts to \<open>m\<close>.
\<close>

lemma decryptMessage_encryptMessage_BOM:
  assumes "valid_AES_GCM_key P K" and "well_formed m"
    and "encryptMessage P (0xFEFF # m) K s = (Inr e, s')"
  shows "decryptMessage P (encryptedData e) (nonce e) K = Inr m"
proof -
  have "well_formed (0xFEFF # m)"
    using assms(2) by (cases m) (simp_all add: BOM_not_surrogate)
  then have "TextDecoder_decode (TextEncoder_encode (0xFEFF # m)) = m"
    by (simp add: TextDecoder_TextEncoder strip_leading_BOM_def)
  with decrypt_encrypt_message_raw [OF assms(1,3)] show ?thesis by simp
qed

subsection \<open>A private key protected on the small platform\<close>


lemma toy_random_16: "toy_getRandomValues 16 s = (replicate 16 (of_nat (s + 1)), s + 1)"
  by (simp add: toy_getRandomValues_def)

lemma js_correct_horse:
  "js ''correct-horse'' = [99, 111, 114, 114, 101, 99, 116, 45, 104, 111, 114, 115, 101]"
  by (simp add: js_def)

lemma js_wrong_horse:
  "js ''wrong-horse'' = [119, 114, 111, 110, 103, 45, 104, 111, 114, 115, 101]"
  by (simp add: js_def)

lemma TextEncoder_correct_horse:
  "TextEncoder_encode (js ''correct-horse'') =
   [99, 111, 114, 114, 101, 99, 116, 45, 104, 111, 114, 115, 101]"
  by (simp add: js_correct_horse TextEncoder_encode_def utf8_encode_def high_surrogate_def
      low_surrogate_def)

lemma TextEncoder_wrong_horse:
  "TextEncoder_encode (js ''wrong-horse'') = [119, 114, 111, 110, 103, 45, 104, 111, 114, 115, 101]"
  by (simp add: js_wrong_horse TextEncoder_encode_def utf8_encode_def high_surrogate_def
      low_surrogate_def)

lemma toy_derive_correct:
  "deriveKeyFromPassword toy (js ''correct-horse'') (replicate 16 1) = Inr (Secret correct_key)"
  by (simp add: deriveKeyFromPassword_def toy_simps toy_importKey_raw_secret_def
      TextEncoder_correct_horse replicate_numeral correct_key_def)

lemma toy_derive_wrong:
  "deriveKeyFromPassword toy (js ''wrong-horse'') (replicate 16 1) = Inr (Secret wrong_key)"
  by (simp add: deriveKeyFromPassword_def toy_simps toy_importKey_raw_secret_def
      TextEncoder_wrong_horse replicate_numeral wrong_key_def)

lemma TextEncoder_JSON_5:
  "TextEncoder_encode (toy_JSON_stringify 5) = [123, 49, 49, 49, 49, 49, 125]"
  by (simp add: toy_JSON_stringify_def replicate_numeral TextEncoder_encode_def utf8_encode_def
      high_surrogate_def low_surrogate_def)

lemma toy_encrypt_key_5:
  "toy_encrypt_AES_GCM (replicate 12 2) (Secret correct_key) [123, 49, 49, 49, 49, 49, 125] =
   Inr [133, 0, 0, 0, 0, 0, 0, 0, 0, 0, 0, 0, 0, 0, 0, 0, 203, 129, 129, 129, 129, 129, 205]"
  by (simp add: toy_encrypt_AES_GCM.simps correct_key_def toy_tag_def replicate_numeral)

lemma toy_decrypt_key_5_wrong:
  "toy_decrypt_AES_GCM (replicate 12 2) (Secret wrong_key)
     [133, 0, 0, 0, 0, 0, 0, 0, 0, 0, 0, 0, 0, 0, 0, 0, 203, 129, 129, 129, 129, 129, 205] =
   Inl (PlatformError ''OperationError'')"
  by (simp add: toy_decrypt_AES_GCM.simps wrong_key_def toy_tag_def replicate_numeral)

lemma b64_key_5:
  "b64_encode
     [133, 0, 0, 0, 0, 0, 0, 0, 0, 0, 0, 0, 0, 0, 0, 0, 203, 129, 129, 129, 129, 129, 205] =
   js ''hQAAAAAAAAAAAAAAAAAAAMuBgYGBgc0=''"
  by (simp add: b64_encode_def b64_char_def b64_pad_def js_def)

lemma b64_salt_1: "b64_encode (replicate 16 1) = js ''AQEBAQEBAQEBAQEBAQEBAQ==''"
  by (simp add: b64_encode_def b64_char_def b64_pad_def js_def replicate_numeral)

lemma b64_nonce_2: "b64_encode (replicate 12 2) = js ''AgICAgICAgICAgIC''"
  by (simp add: b64_encode_def b64_char_def js_def replicate_numeral)

lemma toy_encryptPrivateKey_5:
  "encryptPrivateKey toy (ECDH_private 5) (js ''correct-horse'') 0 =
   (Inr \<lparr>encryptedPrivateKey = js ''hQAAAAAAAAAAAAAAAAAAAMuBgYGBgc0='',
         salt = js ''AQEBAQEBAQEBAQEBAQEBAQ=='', iv = js ''AgICAgICAgICAgIC''\<rparr>, 2)"
  by (simp add: encryptPrivateKey_def toy_random_16 toy_random_12 toy_derive_correct
      toy_simps TextEncoder_JSON_5 toy_encrypt_key_5 arrayBufferToBase64_ok
      b64_key_5 b64_salt_1 b64_nonce_2)

lemma toy_JSON_round_trip: "JSON_round_trip toy"
proof -
  have "well_formed (toy_JSON_stringify j)" for j
    by (rule well_formed_no_surrogate)
       (auto simp: toy_JSON_stringify_def high_surrogate_def low_surrogate_def)
  then show ?thesis
    by (simp add: JSON_round_trip_def toy_simps toy_JSON_parse_def begins_with_BOM_def)
       (simp add: toy_JSON_stringify_def)
qed

lemma toy_exportable: "exportable_private_key toy (ECDH_private d)"
  by (simp add: exportable_private_key_def toy_simps toy_importKey_jwk_ECDH_def)

theorem decryptPrivateKey_encryptPrivateKey_witness:
  "(\<forall>k. valid_AES_GCM_key toy k) \<and> JSON_round_trip toy
   \<and> exportable_private_key toy (ECDH_private 5)
   \<and> encryptPrivateKey toy (ECDH_private 5) (js ''correct-horse'') 0 =
      (Inr \<lparr>encryptedPrivateKey = js ''hQAAAAAAAAAAAAAAAAAAAMuBgYGBgc0='',
            salt = js ''AQEBAQEBAQEBAQEBAQEBAQ=='', iv = js ''AgICAgICAgICAgIC''\<rparr>, 2)
   \<and> decryptPrivateKey toy (js ''hQAAAAAAAAAAAAAAAAAAAMuBgYGBgc0='')
        (js ''AQEBAQEBAQEBAQEBAQEBAQ=='') (js ''AgICAgICAgICAgIC'') (js ''correct-horse'')
      = Inr (ECDH_private 5)"
  using decryptPrivateKey_encryptPrivateKey
    [OF _ toy_JSON_round_trip toy_exportable toy_encryptPrivateKey_5]
  by (simp add: toy_valid_key toy_JSON_round_trip toy_exportable toy_encryptPrivateKey_5)

theorem decryptPrivateKey_wrong_password_witness:
  "base64ToArrayBuffer (js ''hQAAAAAAAAAAAAAAAAAAAMuBgYGBgc0='') =
     Inr [133, 0, 0, 0, 0, 0, 0, 0, 0, 0, 0, 0, 0, 0, 0, 0, 203, 129, 129, 129, 129, 129, 205]
   \<and> base64ToArrayBuffer (js ''AQEBAQEBAQEBAQEBAQEBAQ=='') = Inr (replicate 16 1)
   \<and> base64ToArrayBuffer (js ''AgICAgICAgICAgIC'') = Inr (replicate 12 2)
   \<and> deriveKeyFromPassword toy (js ''wrong-horse'') (replicate 16 1) = Inr (Secret wrong_key)
   \<and> decrypt_AES_GCM toy (replicate 12 2) (Secret wrong_key)
        [133, 0, 0, 0, 0, 0, 0, 0, 0, 0, 0, 0, 0, 0, 0, 0, 203, 129, 129, 129, 129, 129, 205]
      = Inl (PlatformError ''OperationError'')
   \<and> error_name (PlatformError ''OperationError'') = ''OperationError''
   \<and> decryptPrivateKey toy (js ''hQAAAAAAAAAAAAAAAAAAAMuBgYGBgc0='')
        (js ''AQEBAQEBAQEBAQEBAQEBAQ=='') (js ''AgICAgICAgICAgIC'') (js ''wrong-horse'')
      = Inl Senha_incorreta"
proof -
  have 1: "base64ToArrayBuffer (js ''hQAAAAAAAAAAAAAAAAAAAMuBgYGBgc0='') =
     Inr [133, 0, 0, 0, 0, 0, 0, 0, 0, 0, 0, 0, 0, 0, 0, 0, 203, 129, 129, 129, 129, 129, 205]"
    unfolding b64_key_5 [symmetric] by (rule base64ToArrayBuffer_encode) simp
  have 2: "base64ToArrayBuffer (js ''AQEBAQEBAQEBAQEBAQEBAQ=='') = Inr (replicate 16 1)"
    unfolding b64_salt_1 [symmetric] by (rule base64ToArrayBuffer_encode) simp
  have 3: "base64ToArrayBuffer (js ''AgICAgICAgICAgIC'') = Inr (replicate 12 2)"
    unfolding b64_nonce_2 [symmetric] by (rule base64ToArrayBuffer_encode) simp
  have 4: "decrypt_AES_GCM toy (replicate 12 2) (Secret wrong_key)
        [133, 0, 0, 0, 0, 0, 0, 0, 0, 0, 0, 0, 0, 0, 0, 0, 203, 129, 129, 129, 129, 129, 205]
      = Inl (PlatformError ''OperationError'')"
    by (simp add: toy_simps toy_decrypt_key_5_wrong)
  have 5: "error_name (PlatformError ''OperationError'') = ''OperationError''" by simp
  from decryptPrivateKey_wrong_password [OF 1 2 3 toy_derive_wrong 4 5]
  show ?thesis using 1 2 3 4 toy_derive_wrong by simp
qed

subsection \<open>A group key wrapped on the small platform\<close>

lemma unat_of_nat_byte: "q < 256 \<Longrightarrow> unat (of_nat q :: byte) = q"
  by (simp add: unat_of_nat)

lemma toy_import_point: "q < 251 \<Longrightarrow> toy_importKey_raw_ECDH (toy_point q) = Inr (ECDH_public q)"
  by (simp add: toy_importKey_raw_ECDH_def toy_point_def unat_of_nat_byte)

lemma toy_public_less: "toy_public d < 251"
  by (simp add: toy_public_def)

lemma toy_exchange: "d * toy_public e mod 251 = e * toy_public d mod 251"
proof -
  have "d * (e * 7 mod 251) mod 251 = d * (e * 7) mod 251"
    by (rule mod_mult_right_eq)
  also have "d * (e * 7) = e * (d * 7)"
    by (simp only: mult.left_commute)
  also have "e * (d * 7) mod 251 = e * (d * 7 mod 251) mod 251"
    by (rule mod_mult_right_eq [symmetric])
  finally show ?thesis by (simp only: toy_public_def)
qed

lemma toy_valid_key_pair: "valid_key_pair toy (ECDH_private d) (toy_point (toy_public d))"
  by (auto simp: valid_key_pair_def toy_simps toy_generateKey_ECDH_def toy_import_point
      toy_public_less toy_exchange)

lemma toy_generateKeyPair:
  "generateKeyPair toy s =
   (Inr \<lparr>privateKey = ECDH_private (toy_private s),
         publicKey = ECDH_public (toy_public (toy_private s)),
         publicKeyRaw = toy_point (toy_public (toy_private s))\<rparr>, s + 1)"
  by (simp add: generateKeyPair_def toy_simps toy_generateKey_ECDH_def)

lemma toy_public_values: "toy_public 2 = 14" "toy_public 3 = 21" "toy_public 4 = 28"
  "toy_public 5 = 35"
  by (simp_all add: toy_public_def)

lemma toy_private_values: "toy_private 0 = 2" "toy_private 1 = 3" "toy_private 2 = 4"
  by (simp_all add: toy_private_def)

lemma toy_deriveAESKey:
  "length z = 32 \<Longrightarrow> deriveAESKey toy z = Inr (Secret z)"
  by (simp add: deriveAESKey_def toy_simps toy_importKey_raw_secret_def)

lemma toy_shared:
  "computeSharedSecret toy (ECDH_private d) (ECDH_public q) =
   Inr (replicate 31 0 @ [of_nat (d * q mod 251)])"
  by (simp add: computeSharedSecret_def toy_simps)

lemma b64_G0: "b64_encode G0 = js ''AQIDBAUGBwgJCgsMDQ4PEBESExQVFhcYGRobHB0eHyA=''"
  by (simp add: G0_def b64_encode_def b64_char_def b64_pad_def js_def)

lemma TextEncoder_G0: "TextEncoder_encode (b64_encode G0) = G0_text"
  unfolding b64_G0
  by (simp add: js_def TextEncoder_encode_def utf8_encode_def high_surrogate_def
      low_surrogate_def G0_text_def)

lemma toy_wrap_G0:
  "toy_encrypt_AES_GCM (replicate 12 2) (Secret (replicate 31 0 @ [42])) G0_text = Inr G0_wrapped"
  by (simp add: toy_encrypt_AES_GCM.simps toy_tag_def replicate_numeral G0_text_def G0_wrapped_def)

lemma b64_G0_wrapped:
  "b64_encode G0_wrapped =
   js ''WgAAAAAAAAAAAAAAAAAAAGt7c25sa39xbKGRdG2RnXdue156b2xvfW+ie4Bwko2DcXyZjHJsWo9yo2tn''"
  by (simp add: G0_wrapped_def b64_encode_def b64_char_def js_def)

lemma b64_point_14:
  "b64_encode (toy_point 14) =
   js ''BAAAAAAAAAAAAAAAAAAAAAAAAAAAAAAAAAAAAAAAAAAAAAAAAAAAAAAAAAAAAAAAAAAAAAAAAAAAAAAAAAAAAA4=''"
  by (simp add: toy_point_def replicate_numeral b64_encode_def b64_char_def b64_pad_def js_def)

lemma toy_encryptGroupKeyForMember_G0:
  "encryptGroupKeyForMember toy G0 (toy_point 21) 0 =
   (Inr \<lparr>encryptedGroupKey =
           js ''WgAAAAAAAAAAAAAAAAAAAGt7c25sa39xbKGRdG2RnXdue156b2xvfW+ie4Bwko2DcXyZjHJsWo9yo2tn''
           @ js '':'' @ js ''AgICAgICAgICAgIC'',
         ephemeralPublicKey =
           js ''BAAAAAAAAAAAAAAAAAAAAAAAAAAAAAAAAAAAAAAAAAAAAAAAAAAAAAAAAAAAAAAAAAAAAAAAAAAAAAAAAAAAAA4=''\<rparr>,
    2)"
proof -
  have ne: "G0 \<noteq> []" "G0_wrapped \<noteq> []" "toy_point 14 \<noteq> []"
    by (simp_all add: G0_def G0_wrapped_def toy_point_def)
  have i: "importPublicKey toy (toy_point 21) = Inr (ECDH_public 21)"
    by (simp add: importPublicKey_def toy_simps toy_import_point)
  show ?thesis
    by (simp add: encryptGroupKeyForMember_def toy_generateKeyPair toy_private_values
        toy_public_values i toy_shared
        toy_deriveAESKey
        arrayBufferToBase64_ok ne TextEncoder_G0 toy_simps toy_random_12 toy_wrap_G0
        b64_G0_wrapped b64_nonce_2 b64_point_14)
qed

theorem decryptGroupKey_encryptGroupKeyForMember_witness:
  "valid_key_pair toy (ECDH_private 3) (toy_point 21) \<and> (\<forall>k. valid_AES_GCM_key toy k)
   \<and> encryptGroupKeyForMember toy G0 (toy_point 21) 0 =
      (Inr \<lparr>encryptedGroupKey =
           js ''WgAAAAAAAAAAAAAAAAAAAGt7c25sa39xbKGRdG2RnXdue156b2xvfW+ie4Bwko2DcXyZjHJsWo9yo2tn''
           @ js '':'' @ js ''AgICAgICAgICAgIC'',
         ephemeralPublicKey =
           js ''BAAAAAAAAAAAAAAAAAAAAAAAAAAAAAAAAAAAAAAAAAAAAAAAAAAAAAAAAAAAAAAAAAAAAAAAAAAAAAAAAAAAAA4=''\<rparr>,
       2)
   \<and> decryptGroupKey toy
        (js ''WgAAAAAAAAAAAAAAAAAAAGt7c25sa39xbKGRdG2RnXdue156b2xvfW+ie4Bwko2DcXyZjHJsWo9yo2tn''
           @ js '':'' @ js ''AgICAgICAgICAgIC'')
        (js ''BAAAAAAAAAAAAAAAAAAAAAAAAAAAAAAAAAAAAAAAAAAAAAAAAAAAAAAAAAAAAAAAAAAAAAAAAAAAAAAAAAAAAA4='')
        (ECDH_private 3)
      = Inr G0"
proof -
  have p: "valid_key_pair toy (ECDH_private 3) (toy_point 21)"
    using toy_valid_key_pair [of 3] by (simp add: toy_public_values)
  have k: "\<forall>k. valid_AES_GCM_key toy k" by (simp add: toy_valid_key)
  from decryptGroupKey_encryptGroupKeyForMember [OF p k toy_encryptGroupKeyForMember_G0]
  show ?thesis using p k toy_encryptGroupKeyForMember_G0 by simp
qed

section \<open>Group keys: malformed envelopes\<close>

lemma split_not_Nil: "split sep s \<noteq> []"
  by (induction s) (auto split: list.splits)

lemma base64ToArrayBuffer_errors:
  "base64ToArrayBuffer s = Inl e \<Longrightarrow> is_EncodingFailure e"
  by (auto simp: base64ToArrayBuffer_def atob_def is_EncodingFailure_def Let_def
      split: if_splits option.splits sum.splits)

lemma andThen_assoc: "andThen (andThen r f) g = andThen r (\<lambda>x. andThen (f x) g)"
  by (cases r) simp_all

lemma decryptGroupKey_unwrappingKey:
  assumes "split 58 e = x # y # rest" "x \<noteq> []" "y \<noteq> []"
  shows "decryptGroupKey P e pk priv =
     andThen (unwrappingKey P pk priv) (\<lambda>wrapKey.
     andThen (base64ToArrayBuffer x) (\<lambda>encryptedBuffer.
     andThen (base64ToArrayBuffer y) (\<lambda>nonceBuffer.
     andThen (decrypt_AES_GCM P nonceBuffer wrapKey encryptedBuffer) (\<lambda>decryptedData.
     base64ToArrayBuffer (TextDecoder_decode decryptedData)))))"
  using assms by (simp add: decryptGroupKey_def unwrappingKey_def andThen_assoc)

lemma decryptGroupKey_format:
  assumes "\<not> (\<exists>x y rest. split 58 e = x # y # rest \<and> x \<noteq> [] \<and> y \<noteq> [])"
  shows "decryptGroupKey P e pk priv = Inl Formato_de_chave_cifrada_invalido"
proof (cases "split 58 e")
  case Nil
  then show ?thesis by (simp add: split_not_Nil)
next
  case (Cons x r)
  show ?thesis
  proof (cases r)
    case Nil
    with Cons show ?thesis by (simp add: decryptGroupKey_def)
  next
    case (Cons y rest)
    with \<open>split 58 e = x # r\<close> assms have "x = [] \<or> y = []" by auto
    with Cons \<open>split 58 e = x # r\<close> show ?thesis by (auto simp: decryptGroupKey_def)
  qed
qed

lemma js_bad_envelope: "js ''!!!:AAAA'' = [33, 33, 33, 58, 65, 65, 65, 65]"
  by (simp add: js_def)

lemma split_bad_envelope:
  "split 58 [33, 33, 33, 58, 65, 65, 65, 65] = [[33, 33, 33], [65, 65, 65, 65]]"
  by simp

lemma base64ToArrayBuffer_bangs:
  "base64ToArrayBuffer [33, 33, 33] = Inl (PlatformError ''InvalidCharacterError'')"
  by (simp add: base64ToArrayBuffer_def atob_def ascii_whitespace_def b64_index_def)

lemma b64_zeros: "b64_encode [0, 0, 0] = js ''AAAA''"
  by (simp add: b64_encode_def b64_char_def js_def)

lemma base64ToArrayBuffer_AAAA: "base64ToArrayBuffer (js ''AAAA'') = Inr [0, 0, 0]"
  unfolding b64_zeros [symmetric] by (rule base64ToArrayBuffer_encode) simp

lemma toy_unwrappingKey_AAAA:
  "unwrappingKey toy (js ''AAAA'') (ECDH_private 3) = Inl (PlatformError ''DataError'')"
  by (simp add: unwrappingKey_def base64ToArrayBuffer_AAAA importPublicKey_def toy_simps
      toy_importKey_raw_ECDH_def)

lemma toy_unwrappingKey_14:
  "unwrappingKey toy (b64_encode (toy_point 14)) (ECDH_private 3) =
   Inr (Secret (replicate 31 0 @ [42]))"
proof -
  have "toy_point 14 \<noteq> []" by (simp add: toy_point_def)
  then show ?thesis
    by (simp add: unwrappingKey_def base64ToArrayBuffer_encode importPublicKey_def toy_simps
        toy_import_point toy_shared [unfolded computeSharedSecret_def toy_simps]
        computeSharedSecret_def toy_deriveAESKey)
qed

lemma split_first:
  "sep \<in> set t \<Longrightarrow>
   split sep t = takeWhile (\<lambda>c. c \<noteq> sep) t # split sep (drop 1 (dropWhile (\<lambda>c. c \<noteq> sep) t))"
  by (induction t) auto

lemma takeWhile_no_sep: "sep \<notin> set t \<Longrightarrow> takeWhile (\<lambda>c. c \<noteq> sep) t = t"
  by (induction t) auto

lemma split_takeWhile:
  "\<exists>rest. split sep t = takeWhile (\<lambda>c. c \<noteq> sep) t # rest"
proof (cases "sep \<in> set t")
  case True
  then show ?thesis by (simp add: split_first)
next
  case False
  then show ?thesis by (simp add: split_no_sep takeWhile_no_sep)
qed

lemma split_halves:
  assumes "\<not> separator_absent e"
  obtains rest where "split 58 e = ciphertext_half e # nonce_read e # rest"
proof -
  from assms have "58 \<in> set e" by (simp add: separator_absent_def)
  then have "split 58 e = ciphertext_half e # split 58 (nonce_half e)"
    unfolding ciphertext_half_def nonce_half_def by (rule split_first)
  moreover obtain rest where "split 58 (nonce_half e) = nonce_read e # rest"
    unfolding nonce_read_def using split_takeWhile by blast
  ultimately have "split 58 e = ciphertext_half e # nonce_read e # rest" by simp
  then show ?thesis by (rule that)
qed

lemma decryptGroupKey_half_absent:
  assumes "half_absent e"
  shows "decryptGroupKey P e pk priv = Inl Formato_de_chave_cifrada_invalido"
proof (rule decryptGroupKey_format, rule notI)
  assume "\<exists>x y rest. split 58 e = x # y # rest \<and> x \<noteq> [] \<and> y \<noteq> []"
  then obtain x y rest where s: "split 58 e = x # y # rest" and ne: "x \<noteq> []" "y \<noteq> []"
    by blast
  have "\<not> separator_absent e"
  proof
    assume "separator_absent e"
    then have "split 58 e = [e]" by (simp add: separator_absent_def split_no_sep)
    with s show False by simp
  qed
  then obtain rest' where "split 58 e = ciphertext_half e # nonce_read e # rest'"
    by (rule split_halves)
  with s have "x = ciphertext_half e" "y = nonce_read e" by simp_all
  with ne \<open>\<not> separator_absent e\<close> assms show False by (simp add: half_absent_def)
qed

lemma decryptGroupKey_halves:
  assumes "\<not> half_absent e"
  shows "decryptGroupKey P e pk priv =
     andThen (unwrappingKey P pk priv) (\<lambda>wrapKey.
     andThen (base64ToArrayBuffer (ciphertext_half e)) (\<lambda>encryptedBuffer.
     andThen (base64ToArrayBuffer (nonce_read e)) (\<lambda>nonceBuffer.
     andThen (decrypt_AES_GCM P nonceBuffer wrapKey encryptedBuffer) (\<lambda>decryptedData.
     base64ToArrayBuffer (TextDecoder_decode decryptedData)))))"
proof -
  from assms have a: "\<not> separator_absent e" and ne: "ciphertext_half e \<noteq> []" "nonce_read e \<noteq> []"
    by (simp_all add: half_absent_def)
  from a obtain rest where "split 58 e = ciphertext_half e # nonce_read e # rest"
    by (rule split_halves)
  from this ne show ?thesis by (rule decryptGroupKey_unwrappingKey)
qed

text \<open>
  Claim C7, as the code has it. The halves are read as \<open>decryptGroupKey\<close> reads them: the
  ciphertext half is the text before the first separator, the nonce half is the text between
  the first separator and the second one or the end of the string. For every combined
  string that is malformed in this reading, \<open>decryptGroupKey\<close> returns no group key: it throws.
  When the separator or a half is absent, it throws
  \<open>Error("Formato de chave cifrada invalido")\<close>, whatever the keys are. Otherwise, when the
  steps that come before the decoding of the two halves (decoding and importing the
  ephemeral public key, deriving the wrapping key) throw, it is their error; when they
  succeed, it is the \<open>EncodingFailure\<close> of the first half that does not decode.
\<close>

theorem decryptGroupKey_malformed:
  assumes "malformed_as_read e"
  shows "(half_absent e \<longrightarrow>
            decryptGroupKey P e pk priv = Inl Formato_de_chave_cifrada_invalido)
       \<and> (\<not> half_absent e \<longrightarrow>
            (case unwrappingKey P pk priv of
               Inl err \<Rightarrow> decryptGroupKey P e pk priv = Inl err
             | Inr wrapKey \<Rightarrow>
                 (\<exists>err. decryptGroupKey P e pk priv = Inl err \<and> is_EncodingFailure err
                    \<and> (base64ToArrayBuffer (ciphertext_half e) = Inl err
                       \<or> valid_base64 (ciphertext_half e)
                         \<and> base64ToArrayBuffer (nonce_read e) = Inl err))))"
proof (intro conjI impI)
  assume "half_absent e"
  then show "decryptGroupKey P e pk priv = Inl Formato_de_chave_cifrada_invalido"
    by (rule decryptGroupKey_half_absent)
next
  assume h: "\<not> half_absent e"
  note d = decryptGroupKey_halves [OF h, of P pk priv]
  from assms h have bad:
    "\<not> valid_base64 (ciphertext_half e) \<or> \<not> valid_base64 (nonce_read e)"
    by (simp add: malformed_as_read_def)
  show "case unwrappingKey P pk priv of
          Inl err \<Rightarrow> decryptGroupKey P e pk priv = Inl err
        | Inr wrapKey \<Rightarrow>
            (\<exists>err. decryptGroupKey P e pk priv = Inl err \<and> is_EncodingFailure err
               \<and> (base64ToArrayBuffer (ciphertext_half e) = Inl err
                  \<or> valid_base64 (ciphertext_half e)
                    \<and> base64ToArrayBuffer (nonce_read e) = Inl err))"
  proof (cases "unwrappingKey P pk priv")
    case (Inl err)
    then show ?thesis by (simp add: d)
  next
    case (Inr wrapKey)
    show ?thesis
    proof (cases "base64ToArrayBuffer (ciphertext_half e)")
      case (Inl err)
      with Inr base64ToArrayBuffer_errors [OF Inl] show ?thesis by (simp add: d)
    next
      case x: (Inr encryptedBuffer)
      then have v: "valid_base64 (ciphertext_half e)" by (simp add: valid_base64_def)
      with bad obtain err where y: "base64ToArrayBuffer (nonce_read e) = Inl err"
        by (cases "base64ToArrayBuffer (nonce_read e)") (auto simp: valid_base64_def)
      with Inr x v base64ToArrayBuffer_errors [OF y] show ?thesis by (simp add: d)
    qed
  qed
qed

text \<open>
  A string that is malformed as \<open>decryptGroupKey\<close> reads it is malformed in the words of the
  specification, and for a string with at most one separator the two say the same.
\<close>

lemma those_None: "x \<in> set xs \<Longrightarrow> f x = None \<Longrightarrow> those (map f xs) = None"
  by (induction xs) (auto split: option.splits)

lemma in_set_butlast: "c \<in> set xs \<Longrightarrow> c \<noteq> last xs \<Longrightarrow> c \<in> set (butlast xs)"
  by (induction xs) (auto split: if_splits)

lemma in_set_strip_pad:
  assumes "c \<in> set d" "c \<noteq> b64_pad"
  shows "c \<in> set (strip_pad d)"
proof (cases "d \<noteq> [] \<and> last d = b64_pad")
  case False
  then have "strip_pad d = d" by (auto simp: strip_pad_def)
  with assms show ?thesis by simp
next
  case True
  from True assms(2) have "c \<noteq> last d" by simp
  with assms(1) have 1: "c \<in> set (butlast d)" by (rule in_set_butlast)
  show ?thesis
  proof (cases "butlast d \<noteq> [] \<and> last (butlast d) = b64_pad")
    case False
    with True have "strip_pad d = butlast d" by (auto simp: strip_pad_def Let_def)
    with 1 show ?thesis by simp
  next
    case b: True
    from b assms(2) have "c \<noteq> last (butlast d)" by simp
    with 1 have "c \<in> set (butlast (butlast d))" by (rule in_set_butlast)
    moreover from True b have "strip_pad d = butlast (butlast d)"
      by (auto simp: strip_pad_def Let_def)
    ultimately show ?thesis by simp
  qed
qed

lemma separator_not_base64: "58 \<in> set t \<Longrightarrow> \<not> valid_base64 t"
proof -
  assume c: "58 \<in> set t"
  let ?d = "filter (\<lambda>c. \<not> ascii_whitespace c) t"
  let ?d' = "if length ?d mod 4 = 0 then strip_pad ?d else ?d"
  from c have "58 \<in> set ?d" by (simp add: ascii_whitespace_def)
  then have "58 \<in> set ?d'" by (simp add: in_set_strip_pad b64_pad_def)
  moreover have "b64_index 58 = None" by (simp add: b64_index_def)
  ultimately have "those (map b64_index ?d') = None" by (rule those_None)
  then have "isl (atob t)" by (simp add: atob_def Let_def)
  with c show ?thesis
    by (cases "atob t") (auto simp: valid_base64_def base64ToArrayBuffer_def)
qed

lemma nonce_read_eq: "58 \<notin> set (nonce_half e) \<Longrightarrow> nonce_read e = nonce_half e"
  by (simp add: nonce_read_def takeWhile_no_sep)

lemma malformed_as_read_imp_malformed:
  assumes "malformed_as_read e"
  shows "malformed_envelope e"
proof (cases "58 \<in> set (nonce_half e)")
  case True
  then have "\<not> valid_base64 (nonce_half e)" by (rule separator_not_base64)
  then show ?thesis by (simp add: malformed_envelope_def)
next
  case False
  with assms show ?thesis
    by (auto simp: malformed_as_read_def half_absent_def malformed_envelope_def nonce_read_eq)
qed

lemma malformed_one_separator:
  assumes "58 \<notin> set (nonce_half e)"
  shows "malformed_envelope e \<longleftrightarrow> malformed_as_read e"
  using assms
  by (auto simp: malformed_as_read_def half_absent_def malformed_envelope_def nonce_read_eq)

subsection \<open>Malformed envelopes on the small platform\<close>

lemma halves_append:
  assumes "58 \<notin> set a"
  shows "ciphertext_half (a @ 58 # u) = a" "nonce_half (a @ 58 # u) = u"
    "\<not> separator_absent (a @ 58 # u)"
  using assms
  by (induction a) (simp_all add: ciphertext_half_def nonce_half_def separator_absent_def)

lemma nonce_read_append:
  assumes "58 \<notin> set a" "58 \<notin> set b"
  shows "nonce_read (a @ 58 # (b @ 58 # u)) = b"
proof -
  have "takeWhile (\<lambda>c. c \<noteq> 58) (b @ 58 # u) = b"
    using assms(2) by (induction b) simp_all
  then show ?thesis by (simp add: nonce_read_def halves_append [OF assms(1)])
qed

lemma js_AAAA: "js ''AAAA'' = [65, 65, 65, 65]"
  by (simp add: js_def)

lemma halves_bad_envelope:
  "ciphertext_half (js ''!!!:AAAA'') = [33, 33, 33]"
  "nonce_half (js ''!!!:AAAA'') = js ''AAAA''"
  "nonce_read (js ''!!!:AAAA'') = js ''AAAA''"
  "\<not> separator_absent (js ''!!!:AAAA'')"
  by (simp_all add: js_bad_envelope js_AAAA ciphertext_half_def nonce_half_def nonce_read_def
      separator_absent_def)

lemma not_valid_bangs: "\<not> valid_base64 [33, 33, 33]"
  by (simp add: valid_base64_def base64ToArrayBuffer_bangs)

lemma malformed_bad_envelope:
  "malformed_as_read (js ''!!!:AAAA'')" "\<not> half_absent (js ''!!!:AAAA'')"
  "malformed_envelope (js ''!!!:AAAA'')"
  by (simp_all add: malformed_as_read_def malformed_envelope_def half_absent_def
      halves_bad_envelope not_valid_bangs js_AAAA)

lemma malformed_no_separator:
  "malformed_as_read (js ''AAAA'')" "half_absent (js ''AAAA'')"
  by (simp_all add: malformed_as_read_def half_absent_def separator_absent_def js_AAAA)

lemma js_trailing: "js '':!!!'' = [58, 33, 33, 33]"
  by (simp add: js_def)

lemma js_append: "js (a @ b) = js a @ js b"
  by (simp add: js_def)

lemma G0_envelope_trailing:
  "js ''WgAAAAAAAAAAAAAAAAAAAGt7c25sa39xbKGRdG2RnXdue156b2xvfW+ie4Bwko2DcXyZjHJsWo9yo2tn''
     @ js '':'' @ js ''AgICAgICAgICAgIC'' @ js '':!!!''
   = b64_encode G0_wrapped @ 58 # (b64_encode (replicate 12 2) @ 58 # [33, 33, 33])"
  by (simp only: b64_G0_wrapped b64_nonce_2 js_colon js_trailing append_Cons append_Nil)

lemma halves_G0_envelope_trailing:
  "ciphertext_half
     (b64_encode G0_wrapped @ 58 # (b64_encode (replicate 12 2) @ 58 # [33, 33, 33]))
   = b64_encode G0_wrapped"
  "nonce_half
     (b64_encode G0_wrapped @ 58 # (b64_encode (replicate 12 2) @ 58 # [33, 33, 33]))
   = b64_encode (replicate 12 2) @ 58 # [33, 33, 33]"
  "nonce_read
     (b64_encode G0_wrapped @ 58 # (b64_encode (replicate 12 2) @ 58 # [33, 33, 33]))
   = b64_encode (replicate 12 2)"
  "\<not> separator_absent
     (b64_encode G0_wrapped @ 58 # (b64_encode (replicate 12 2) @ 58 # [33, 33, 33]))"
  by (simp_all add: halves_append nonce_read_append colon_notin_b64)

lemma toy_decryptGroupKey_trailing:
  "decryptGroupKey toy
     (b64_encode G0_wrapped @ 58 # (b64_encode (replicate 12 2) @ 58 # [33, 33, 33]))
     (b64_encode (toy_point 14)) (ECDH_private 3) = Inr G0"
proof -
  have ne: "G0_wrapped \<noteq> []" "G0 \<noteq> []"
    by (simp_all add: G0_wrapped_def G0_def)
  have h: "\<not> half_absent
     (b64_encode G0_wrapped @ 58 # (b64_encode (replicate 12 2) @ 58 # [33, 33, 33]))"
    by (simp add: half_absent_def halves_G0_envelope_trailing b64_encode_empty_iff ne)
  have t: "TextDecoder_decode G0_text = b64_encode G0"
    unfolding TextEncoder_G0 [symmetric]
    by (rule TextDecoder_TextEncoder_id) (rule well_formed_b64_encode, rule no_BOM_b64_encode)
  show ?thesis
    by (simp add: decryptGroupKey_halves [OF h] halves_G0_envelope_trailing
        toy_unwrappingKey_14 base64ToArrayBuffer_encode ne toy_simps
        toy_decrypt_encrypt [OF toy_wrap_G0] t)
qed

text \<open>
  What the claim as written misses. First, with a malformed first half and an ephemeral
  public key that is base64 but not a point (three zero bytes), the error is the \<open>DataError\<close>
  of \<open>importKey\<close>, which is not an \<open>EncodingFailure\<close>. Second, what follows a second separator
  is not read: the envelope of \<open>G0\<close> with \<open>":!!!"\<close> appended has a nonce half that is not base64,
  and \<open>decryptGroupKey\<close> returns \<open>G0\<close>.
\<close>

theorem decryptGroupKey_malformed_as_specified:
  "malformed_envelope (js ''!!!:AAAA'')
   \<and> decryptGroupKey toy (js ''!!!:AAAA'') (js ''AAAA'') (ECDH_private 3)
       = Inl (PlatformError ''DataError'')
   \<and> \<not> is_EncodingFailure (PlatformError ''DataError'')
   \<and> malformed_envelope
       (js ''WgAAAAAAAAAAAAAAAAAAAGt7c25sa39xbKGRdG2RnXdue156b2xvfW+ie4Bwko2DcXyZjHJsWo9yo2tn''
          @ js '':'' @ js ''AgICAgICAgICAgIC'' @ js '':!!!'')
   \<and> decryptGroupKey toy
       (js ''WgAAAAAAAAAAAAAAAAAAAGt7c25sa39xbKGRdG2RnXdue156b2xvfW+ie4Bwko2DcXyZjHJsWo9yo2tn''
          @ js '':'' @ js ''AgICAgICAgICAgIC'' @ js '':!!!'')
       (js ''BAAAAAAAAAAAAAAAAAAAAAAAAAAAAAAAAAAAAAAAAAAAAAAAAAAAAAAAAAAAAAAAAAAAAAAAAAAAAAAAAAAAAA4='')
       (ECDH_private 3)
      = Inr G0"
proof -
  have a: "decryptGroupKey toy (js ''!!!:AAAA'') (js ''AAAA'') (ECDH_private 3)
       = Inl (PlatformError ''DataError'')"
    by (simp add: decryptGroupKey_halves [OF malformed_bad_envelope(2)] toy_unwrappingKey_AAAA)
  have b: "\<not> is_EncodingFailure (PlatformError ''DataError'')"
    by (simp add: is_EncodingFailure_def)
  have "\<not> valid_base64 (b64_encode (replicate 12 2) @ 58 # [33, 33, 33])"
    by (rule separator_not_base64) simp
  then have c: "malformed_envelope
      (b64_encode G0_wrapped @ 58 # (b64_encode (replicate 12 2) @ 58 # [33, 33, 33]))"
    by (simp add: malformed_envelope_def halves_G0_envelope_trailing)
  from malformed_bad_envelope(3) a b c toy_decryptGroupKey_trailing show ?thesis
    unfolding G0_envelope_trailing b64_point_14 [symmetric] by blast
qed

theorem decryptGroupKey_malformed_witness:
  "malformed_as_read (js ''AAAA'') \<and> half_absent (js ''AAAA'')
   \<and> unwrappingKey toy (js ''AAAA'') (ECDH_private 3) = Inl (PlatformError ''DataError'')
   \<and> decryptGroupKey toy (js ''AAAA'') (js ''AAAA'') (ECDH_private 3)
       = Inl Formato_de_chave_cifrada_invalido
   \<and> malformed_as_read (js ''!!!:AAAA'') \<and> \<not> half_absent (js ''!!!:AAAA'')
   \<and> unwrappingKey toy (b64_encode (toy_point 14)) (ECDH_private 3)
       = Inr (Secret (replicate 31 0 @ [42]))
   \<and> decryptGroupKey toy (js ''!!!:AAAA'') (b64_encode (toy_point 14)) (ECDH_private 3)
       = Inl (PlatformError ''InvalidCharacterError'')
   \<and> is_EncodingFailure (PlatformError ''InvalidCharacterError'')"
proof -
  from decryptGroupKey_malformed
    [OF malformed_no_separator(1), of toy "js ''AAAA''" "ECDH_private 3"]
    malformed_no_separator(2)
  have a: "decryptGroupKey toy (js ''AAAA'') (js ''AAAA'') (ECDH_private 3)
       = Inl Formato_de_chave_cifrada_invalido"
    by blast
  from decryptGroupKey_malformed
    [OF malformed_bad_envelope(1), of toy "b64_encode (toy_point 14)" "ECDH_private 3"]
    malformed_bad_envelope(2)
  have b: "decryptGroupKey toy (js ''!!!:AAAA'') (b64_encode (toy_point 14)) (ECDH_private 3)
       = Inl (PlatformError ''InvalidCharacterError'')"
    by (auto simp: toy_unwrappingKey_14 halves_bad_envelope base64ToArrayBuffer_bangs
        not_valid_bangs)
  have c: "is_EncodingFailure (PlatformError ''InvalidCharacterError'')"
    by (simp add: is_EncodingFailure_def)
  from a b c malformed_no_separator malformed_bad_envelope(1,2) toy_unwrappingKey_AAAA
    toy_unwrappingKey_14
  show ?thesis by blast
qed

section \<open>Group keys: what is wrapped and what goes on the wire\<close>

text \<open>
  Claim C8, as the code has it. For every group key \<open>G\<close> (its exported bytes) and member
  public key, \<open>encryptGroupKeyForMember\<close> encrypts the UTF-8 bytes of the base64 text of
  \<open>G\<close> under the key derived from a fresh ephemeral private key and the member's public
  key, with a fresh 12-byte nonce; \<open>encryptedGroupKey\<close> is the base64 of the ciphertext, one
  \<open>":"\<close> and the base64 of the nonce, so that \<open>split(":")\<close> gives exactly these two; and
  \<open>ephemeralPublicKey\<close> is the base64 of the raw ephemeral public key.
\<close>

theorem encryptGroupKeyForMember_wire:
  assumes "encryptGroupKeyForMember P G raw s = (Inr w, s')"
  shows "\<exists>ephemeralKeys s1 memberPublicKey sharedSecret wrapKey n c.
           generateKeyPair P s = (Inr ephemeralKeys, s1)
         \<and> importPublicKey P raw = Inr memberPublicKey
         \<and> computeSharedSecret P (privateKey ephemeralKeys) memberPublicKey = Inr sharedSecret
         \<and> deriveAESKey P sharedSecret = Inr wrapKey
         \<and> getRandomValues P 12 s1 = (n, s')
         \<and> encrypt_AES_GCM P n wrapKey (TextEncoder_encode (b64_encode G)) = Inr c
         \<and> encryptedGroupKey w = b64_encode c @ js '':'' @ b64_encode n
         \<and> split 58 (encryptedGroupKey w) = [b64_encode c, b64_encode n]
         \<and> arrayBufferToBase64 c = Inr (b64_encode c)
         \<and> arrayBufferToBase64 n = Inr (b64_encode n)
         \<and> arrayBufferToBase64 (publicKeyRaw ephemeralKeys) = Inr (ephemeralPublicKey w)"
proof -
  from assms obtain epriv epub eraw s1 mpub z wrapKey n c where
    g: "generateKey_ECDH P s = (Inr (epriv, epub), s1)" "exportKey_raw P epub = Inr eraw"
    and m: "importKey_raw_ECDH P raw = Inr mpub"
    and z: "deriveBits_ECDH P mpub epriv 256 = Inr z"
    and k: "deriveAESKey P z = Inr wrapKey"
    and r: "getRandomValues P 12 s1 = (n, s')"
    and enc: "encrypt_AES_GCM P n wrapKey (TextEncoder_encode (b64_encode G)) = Inr c"
    and ne: "G \<noteq> []" "c \<noteq> []" "n \<noteq> []" "eraw \<noteq> []"
    and w: "w = \<lparr>encryptedGroupKey = b64_encode c @ 58 # b64_encode n,
                 ephemeralPublicKey = b64_encode eraw\<rparr>"
    by (rule encryptGroupKeyForMember_Inr)
  let ?e = "\<lparr>privateKey = epriv, publicKey = epub, publicKeyRaw = eraw\<rparr>"
  have "generateKeyPair P s = (Inr ?e, s1)"
    using g by (simp add: generateKeyPair_def)
  moreover have "importPublicKey P raw = Inr mpub"
    using m by (simp add: importPublicKey_def)
  moreover have "computeSharedSecret P (privateKey ?e) mpub = Inr z"
    using z by (simp add: computeSharedSecret_def)
  moreover have "encryptedGroupKey w = b64_encode c @ js '':'' @ b64_encode n"
    by (simp add: w js_colon)
  moreover have "split 58 (encryptedGroupKey w) = [b64_encode c, b64_encode n]"
    by (simp add: w split_b64)
  moreover have "arrayBufferToBase64 (publicKeyRaw ?e) = Inr (ephemeralPublicKey w)"
    using ne by (simp add: w arrayBufferToBase64_ok)
  ultimately show ?thesis
    using k r enc ne by (auto simp: arrayBufferToBase64_ok)
qed

lemma base64ToArrayBuffer_G0_wrapped:
  "base64ToArrayBuffer
     (js ''WgAAAAAAAAAAAAAAAAAAAGt7c25sa39xbKGRdG2RnXdue156b2xvfW+ie4Bwko2DcXyZjHJsWo9yo2tn'')
   = Inr G0_wrapped"
  unfolding b64_G0_wrapped [symmetric]
  by (rule base64ToArrayBuffer_encode) (simp add: G0_wrapped_def)

lemma G0_text_neq: "G0_text \<noteq> G0"
  by (simp add: G0_text_def G0_def)

text \<open>
  What the claim as written misses: what the envelope holds is not the exported byte
  form. On the small platform the ciphertext half of the envelope of the 32 bytes \<open>G0\<close>
  decrypts, under the wrapping key, to the 44 bytes of the base64 text of \<open>G0\<close>.
\<close>

theorem encryptGroupKeyForMember_wraps_text:
  "encryptGroupKeyForMember toy G0 (toy_point 21) 0 =
     (Inr \<lparr>encryptedGroupKey =
           js ''WgAAAAAAAAAAAAAAAAAAAGt7c25sa39xbKGRdG2RnXdue156b2xvfW+ie4Bwko2DcXyZjHJsWo9yo2tn''
           @ js '':'' @ js ''AgICAgICAgICAgIC'',
         ephemeralPublicKey =
           js ''BAAAAAAAAAAAAAAAAAAAAAAAAAAAAAAAAAAAAAAAAAAAAAAAAAAAAAAAAAAAAAAAAAAAAAAAAAAAAAAAAAAAAA4=''\<rparr>,
      2)
   \<and> base64ToArrayBuffer
       (js ''WgAAAAAAAAAAAAAAAAAAAGt7c25sa39xbKGRdG2RnXdue156b2xvfW+ie4Bwko2DcXyZjHJsWo9yo2tn'')
      = Inr G0_wrapped
   \<and> decrypt_AES_GCM toy (replicate 12 2) (Secret (replicate 31 0 @ [42])) G0_wrapped
      = Inr G0_text
   \<and> G0_text = TextEncoder_encode (b64_encode G0)
   \<and> G0_text \<noteq> G0"
  by (simp add: toy_encryptGroupKeyForMember_G0 base64ToArrayBuffer_G0_wrapped G0_text_neq
      TextEncoder_G0 toy_simps toy_decrypt_encrypt [OF toy_wrap_G0])

theorem encryptGroupKeyForMember_wire_witness:
  "encryptGroupKeyForMember toy G0 (toy_point 21) 0 =
     (Inr \<lparr>encryptedGroupKey =
           js ''WgAAAAAAAAAAAAAAAAAAAGt7c25sa39xbKGRdG2RnXdue156b2xvfW+ie4Bwko2DcXyZjHJsWo9yo2tn''
           @ js '':'' @ js ''AgICAgICAgICAgIC'',
         ephemeralPublicKey =
           js ''BAAAAAAAAAAAAAAAAAAAAAAAAAAAAAAAAAAAAAAAAAAAAAAAAAAAAAAAAAAAAAAAAAAAAAAAAAAAAAAAAAAAAA4=''\<rparr>,
      2)
   \<and> split 58
        (js ''WgAAAAAAAAAAAAAAAAAAAGt7c25sa39xbKGRdG2RnXdue156b2xvfW+ie4Bwko2DcXyZjHJsWo9yo2tn''
           @ js '':'' @ js ''AgICAgICAgICAgIC'')
      = [js ''WgAAAAAAAAAAAAAAAAAAAGt7c25sa39xbKGRdG2RnXdue156b2xvfW+ie4Bwko2DcXyZjHJsWo9yo2tn'',
         js ''AgICAgICAgICAgIC'']"
proof -
  from encryptGroupKeyForMember_wire [OF toy_encryptGroupKeyForMember_G0]
  obtain n c where
    e: "js ''WgAAAAAAAAAAAAAAAAAAAGt7c25sa39xbKGRdG2RnXdue156b2xvfW+ie4Bwko2DcXyZjHJsWo9yo2tn''
           @ js '':'' @ js ''AgICAgICAgICAgIC'' = b64_encode c @ js '':'' @ b64_encode n"
    and s: "split 58
        (js ''WgAAAAAAAAAAAAAAAAAAAGt7c25sa39xbKGRdG2RnXdue156b2xvfW+ie4Bwko2DcXyZjHJsWo9yo2tn''
           @ js '':'' @ js ''AgICAgICAgICAgIC'') = [b64_encode c, b64_encode n]"
    by auto
  have "split 58
        (b64_encode G0_wrapped @ js '':'' @ b64_encode (replicate 12 2))
      = [b64_encode G0_wrapped, b64_encode (replicate 12 2)]"
    by (simp add: js_colon split_b64)
  then show ?thesis
    using s by (simp add: toy_encryptGroupKeyForMember_G0 b64_G0_wrapped b64_nonce_2)
qed

section \<open>Direct messages: two encryptions\<close>






lemma encryptMessage_Inr_ex:
  assumes "encryptMessage P m K s = (Inr e, s')"
  shows "\<exists>n c. getRandomValues P 12 s = (n, s')
           \<and> encrypt_AES_GCM P n K (TextEncoder_encode m) = Inr c
           \<and> e = \<lparr>encryptedData = b64_encode c, nonce = b64_encode n\<rparr>"
  using encryptMessage_Inr [OF assms] by metis






subsection \<open>A direct message sent on the small platform\<close>





















section \<open>Messages: a flipped bit\<close>

lemma length_flip_bit_at: "length (flip_bit_at i b) = length b"
  by (simp add: flip_bit_at_def)

lemma flip_bit_at_empty_iff: "flip_bit_at i b = [] \<longleftrightarrow> b = []"
  by (simp add: flip_bit_at_def)

lemma decryptMessage_rejected:
  assumes "c \<noteq> []" "n \<noteq> []" "isl (decrypt_AES_GCM P n K c)"
  shows "decryptMessage P (b64_encode c) (b64_encode n) K = Inl Falha_na_descriptografia"
  using assms by (cases "decrypt_AES_GCM P n K c") (simp_all add: decryptMessage_encoded)

text \<open>
  Claim C6. Take the envelope that \<open>encryptMessage\<close> produced under \<open>K\<close>, with ciphertext
  bytes \<open>c\<close> and nonce bytes \<open>n\<close>. Flip any single bit of \<open>c\<close>, or any single bit of \<open>n\<close>,
  encode the result again and call \<open>decryptMessage\<close> with \<open>K\<close>: it throws
  \<open>Error("Falha na descriptografia - chave incorreta ou dados corrompidos")\<close> and returns no
  plaintext. This holds for every platform whose AES-GCM detects tampering under \<open>K\<close>.
\<close>

theorem decryptMessage_flipped_bit:
  assumes "detects_tampering P K"
    and "encryptMessage P m K s = (Inr e, s')"
    and "base64ToArrayBuffer (encryptedData e) = Inr c"
    and "base64ToArrayBuffer (nonce e) = Inr n"
  shows "(i < 8 * length c \<longrightarrow>
            arrayBufferToBase64 (flip_bit_at i c) = Inr (b64_encode (flip_bit_at i c))
          \<and> decryptMessage P (b64_encode (flip_bit_at i c)) (nonce e) K
              = Inl Falha_na_descriptografia)
       \<and> (i < 8 * length n \<longrightarrow>
            arrayBufferToBase64 (flip_bit_at i n) = Inr (b64_encode (flip_bit_at i n))
          \<and> decryptMessage P (encryptedData e) (b64_encode (flip_bit_at i n)) K
              = Inl Falha_na_descriptografia)"
proof -
  from assms(2) obtain n0 c0 where
    enc: "encrypt_AES_GCM P n0 K (TextEncoder_encode m) = Inr c0"
    and ne: "c0 \<noteq> []" "n0 \<noteq> []"
    and e: "e = \<lparr>encryptedData = b64_encode c0, nonce = b64_encode n0\<rparr>"
    by (rule encryptMessage_Inr)
  from assms(3,4) ne have c: "c = c0" and n: "n = n0"
    by (simp_all add: e base64ToArrayBuffer_encode)
  from assms(1) enc have
    t: "i < 8 * length c0 \<Longrightarrow> isl (decrypt_AES_GCM P n0 K (flip_bit_at i c0))"
    and u: "i < 8 * length n0 \<Longrightarrow> isl (decrypt_AES_GCM P (flip_bit_at i n0) K c0)"
    unfolding detects_tampering_def by blast+
  show ?thesis
    unfolding c n using ne
    by (auto simp: e arrayBufferToBase64_ok flip_bit_at_empty_iff
        intro!: decryptMessage_rejected t u)
qed

subsection \<open>The small platform detects tampering\<close>

lemma flip_bit_at_shift:
  fixes i m :: nat
  assumes "\<not> i < 8 * m"
  shows "(i - 8 * m) div 8 = i div 8 - m" "(i - 8 * m) mod 8 = i mod 8"
proof -
  from assms have "8 * m \<le> i" by simp
  then obtain r where i: "i = r + m * 8"
    by (metis add.commute le_add_diff_inverse mult.commute)
  show "(i - 8 * m) div 8 = i div 8 - m" by (simp add: i)
  show "(i - 8 * m) mod 8 = i mod 8" by (simp add: i)
qed

lemma sum_list_update_byte:
  "j < length xs \<Longrightarrow> sum_list (xs[j := y]) + xs ! j = sum_list xs + y"
  for xs :: bytes
proof (induction xs arbitrary: j)
  case Nil
  then show ?case by simp
next
  case (Cons a xs)
  show ?case
  proof (cases j)
    case 0
    then show ?thesis by (simp add: ac_simps)
  next
    case (Suc j')
    with Cons.prems have "j' < length xs" by simp
    from Cons.IH [OF this] have "sum_list (xs[j' := y]) + xs ! j' = sum_list xs + y" .
    then show ?thesis unfolding Suc
      by (simp only: list_update_code sum_list.Cons nth_Cons_Suc add.assoc)
  qed
qed

lemma flip_byte_neq: "m < 8 \<Longrightarrow> flip_bit m x \<noteq> x"
  for x :: byte
  by (simp add: flip_bit_eq_idem_iff)

lemma sum_list_flip_neq:
  assumes "i < 8 * length xs"
  shows "sum_list (flip_bit_at i xs) \<noteq> sum_list xs"
proof
  assume eq: "sum_list (flip_bit_at i xs) = sum_list xs"
  have j: "i div 8 < length xs" using assms by simp
  have "sum_list xs + xs ! (i div 8) = sum_list xs + flip_bit (i mod 8) (xs ! (i div 8))"
    using sum_list_update_byte [OF j, of "flip_bit (i mod 8) (xs ! (i div 8))"] eq
    by (simp only: flip_bit_at_def)
  then have "flip_bit (i mod 8) (xs ! (i div 8)) = xs ! (i div 8)"
    by (simp only: add_left_cancel)
  moreover have "flip_bit (i mod 8) (xs ! (i div 8)) \<noteq> xs ! (i div 8)"
    by (rule flip_byte_neq) simp
  ultimately show False by contradiction
qed

lemma flip_bit_at_neq:
  assumes "i < 8 * length xs"
  shows "flip_bit_at i xs \<noteq> xs"
  using sum_list_flip_neq [OF assms] by auto

lemma flip_bit_at_append:
  "flip_bit_at i (xs @ ys) =
     (if i < 8 * length xs then flip_bit_at i xs @ ys
      else xs @ flip_bit_at (i - 8 * length xs) ys)"
proof (cases "i < 8 * length xs")
  case True
  then have "i div 8 < length xs" by simp
  with True show ?thesis by (simp add: flip_bit_at_def list_update_append nth_append)
next
  case False
  then have j: "\<not> i div 8 < length xs" by simp
  from False j flip_bit_at_shift [OF False] show ?thesis by (simp add: flip_bit_at_def list_update_append nth_append)
qed

lemma toy_decrypt_tagged:
  "toy_decrypt_AES_GCM n (Secret k) (t @ c) =
     (if t = toy_tag k n c then Inr (map (\<lambda>x. x - sum_list k) c)
      else Inl (PlatformError ''OperationError''))"
  if "length t = 16"
  using that by (simp add: toy_decrypt_AES_GCM.simps)

lemma toy_tag_eq_iff:
  "toy_tag k n c = toy_tag k' n' c' \<longleftrightarrow>
     sum_list k + sum_list n + sum_list c = sum_list k' + sum_list n' + sum_list c'"
  by (simp add: toy_tag_def add.assoc)

lemma toy_detects_tampering: "detects_tampering toy (Secret k)"
proof -
  have a: "isl (toy_decrypt_AES_GCM n (Secret k) (flip_bit_at i (toy_tag k n c0 @ c0)))"
    if "i < 8 * length (toy_tag k n c0 @ c0)" for n c0 i
  proof (cases "i < 8 * length (toy_tag k n c0)")
    case True
    then have "flip_bit_at i (toy_tag k n c0) \<noteq> toy_tag k n c0"
      by (rule flip_bit_at_neq)
    with True show ?thesis
      by (simp only: flip_bit_at_append if_True)
        (simp add: toy_decrypt_tagged length_flip_bit_at length_toy_tag)
  next
    case False
    with that have "i - 8 * length (toy_tag k n c0) < 8 * length c0" by simp
    then have "sum_list (flip_bit_at (i - 8 * length (toy_tag k n c0)) c0) \<noteq> sum_list c0"
      by (rule sum_list_flip_neq)
    with False show ?thesis
      by (simp only: flip_bit_at_append if_False)
        (simp add: toy_decrypt_tagged length_toy_tag toy_tag_eq_iff)
  qed
  have b: "isl (toy_decrypt_AES_GCM (flip_bit_at i n) (Secret k) (toy_tag k n c0 @ c0))"
    if "i < 8 * length n" for n c0 i
    using sum_list_flip_neq [OF that]
    by (simp add: toy_decrypt_tagged length_toy_tag toy_tag_eq_iff)
  have enc: "toy_encrypt_AES_GCM n (Secret k) p = Inr c \<longleftrightarrow>
      c = toy_tag k n (map (\<lambda>x. x + sum_list k) p) @ map (\<lambda>x. x + sum_list k) p" for n p c
    by (auto simp: toy_encrypt_AES_GCM.simps Let_def)
  show ?thesis
    unfolding detects_tampering_def
  proof (intro allI impI conjI)
    fix n p c i
    assume "encrypt_AES_GCM toy n (Secret k) p = Inr c"
    then have c: "c = toy_tag k n (map (\<lambda>x. x + sum_list k) p) @ map (\<lambda>x. x + sum_list k) p"
      by (simp add: toy_simps enc)
    { assume "i < 8 * length c"
      then show "isl (decrypt_AES_GCM toy n (Secret k) (flip_bit_at i c))"
        unfolding c toy_simps by (rule a) }
    { assume "i < 8 * length n"
      then show "isl (decrypt_AES_GCM toy (flip_bit_at i n) (Secret k) c)"
        unfolding c toy_simps by (rule b) }
  qed
qed

text \<open>
  The envelope of \<open>"hi"\<close> with bit 3 of the first ciphertext byte flipped (239 becomes 231),
  and with bit 3 of the first nonce byte flipped (1 becomes 9).
\<close>

lemma flip_hi:
  "flip_bit_at 3 [239, 0, 0, 0, 0, 0, 0, 0, 0, 0, 0, 0, 0, 0, 0, 0, 110, 111] =
     [231, 0, 0, 0, 0, 0, 0, 0, 0, 0, 0, 0, 0, 0, 0, 0, 110, 111 :: byte]"
  by (simp add: flip_bit_at_def flip_bit_eq_xor)

lemma flip_nonce_1:
  "flip_bit_at 3 (replicate 12 1) = (9 :: byte) # replicate 11 1"
  by (simp add: flip_bit_at_def flip_bit_eq_xor replicate_numeral)

lemma b64_hi_flipped:
  "b64_encode [231, 0, 0, 0, 0, 0, 0, 0, 0, 0, 0, 0, 0, 0, 0, 0, 110, 111] =
   js ''5wAAAAAAAAAAAAAAAAAAAG5v''"
  by (simp add: b64_encode_def b64_char_def js_def)

lemma b64_nonce_1_flipped: "b64_encode (9 # replicate 11 1) = js ''CQEBAQEBAQEBAQEB''"
  by (simp add: b64_encode_def b64_char_def js_def replicate_numeral)

lemma decode_hi:
  "base64ToArrayBuffer (js ''7wAAAAAAAAAAAAAAAAAAAG5v'') =
     Inr [239, 0, 0, 0, 0, 0, 0, 0, 0, 0, 0, 0, 0, 0, 0, 0, 110, 111]"
  "base64ToArrayBuffer (js ''AQEBAQEBAQEBAQEB'') = Inr (replicate 12 1)"
  unfolding b64_hi [symmetric] b64_nonce_1 [symmetric]
  by (simp_all add: base64ToArrayBuffer_encode)

theorem decryptMessage_flipped_bit_witness:
  "detects_tampering toy K0
   \<and> encryptMessage toy (js ''hi'') K0 0 =
       (Inr \<lparr>encryptedData = js ''7wAAAAAAAAAAAAAAAAAAAG5v'', nonce = js ''AQEBAQEBAQEBAQEB''\<rparr>, 1)
   \<and> base64ToArrayBuffer (js ''7wAAAAAAAAAAAAAAAAAAAG5v'') =
       Inr [239, 0, 0, 0, 0, 0, 0, 0, 0, 0, 0, 0, 0, 0, 0, 0, 110, 111]
   \<and> base64ToArrayBuffer (js ''AQEBAQEBAQEBAQEB'') = Inr (replicate 12 1)
   \<and> (3::nat) < 8 * length [239, 0, 0, 0, 0, 0, 0, 0, 0, 0, 0, 0, 0, 0, 0, 0, 110, 111 :: byte]
   \<and> (3::nat) < 8 * length (replicate 12 (1 :: byte))
   \<and> arrayBufferToBase64 [231, 0, 0, 0, 0, 0, 0, 0, 0, 0, 0, 0, 0, 0, 0, 0, 110, 111] =
       Inr (js ''5wAAAAAAAAAAAAAAAAAAAG5v'')
   \<and> decryptMessage toy (js ''5wAAAAAAAAAAAAAAAAAAAG5v'') (js ''AQEBAQEBAQEBAQEB'') K0
       = Inl Falha_na_descriptografia
   \<and> arrayBufferToBase64 (9 # replicate 11 1) = Inr (js ''CQEBAQEBAQEBAQEB'')
   \<and> decryptMessage toy (js ''7wAAAAAAAAAAAAAAAAAAAG5v'') (js ''CQEBAQEBAQEBAQEB'') K0
       = Inl Falha_na_descriptografia"
proof -
  have t: "detects_tampering toy K0"
    unfolding K0_def by (rule toy_detects_tampering)
  note w = decryptMessage_flipped_bit [OF t toy_encryptMessage_hi, of _ _ 3,
      simplified envelope.simps, OF decode_hi, unfolded flip_hi flip_nonce_1
      b64_hi_flipped b64_nonce_1_flipped]
  have a: "(3::nat) < 8 * length [239, 0, 0, 0, 0, 0, 0, 0, 0, 0, 0, 0, 0, 0, 0, 0, 110, 111 :: byte]"
    by simp
  have b: "(3::nat) < 8 * length (replicate 12 (1 :: byte))"
    by simp
  from w a b t toy_encryptMessage_hi decode_hi show ?thesis by blast
qed

section \<open>Key exchange: both sides derive the same secret\<close>

lemma on_curve_smul:
  assumes "group_law C" "on_curve C Q"
  shows "on_curve C (smul C d Q)"
  using assms by (induction d) (simp_all add: group_law_def)

lemma smul_add:
  assumes "group_law C" "on_curve C Q"
  shows "smul C (m + n) Q = point_add C (smul C m Q) (smul C n Q)"
proof (induction m)
  case 0
  from assms have "on_curve C (smul C n Q)" by (rule on_curve_smul)
  with assms(1) show ?case by (simp add: group_law_def)
next
  case (Suc m)
  from assms have c: "on_curve C (smul C m Q)" "on_curve C (smul C n Q)"
    by (rule on_curve_smul)+
  from assms(1) have assoc: "\<And>x y z. on_curve C x \<Longrightarrow> on_curve C y \<Longrightarrow> on_curve C z \<Longrightarrow>
      point_add C (point_add C x y) z = point_add C x (point_add C y z)"
    unfolding group_law_def by blast
  have "smul C (Suc m + n) Q = point_add C Q (point_add C (smul C m Q) (smul C n Q))"
    by (simp add: Suc.IH)
  also have "\<dots> = point_add C (point_add C Q (smul C m Q)) (smul C n Q)"
    by (rule assoc [OF assms(2) c, symmetric])
  finally show ?case by simp
qed

lemma smul_smul:
  assumes "group_law C" "on_curve C Q"
  shows "smul C m (smul C n Q) = smul C (m * n) Q"
proof (induction m)
  case 0
  show ?case by simp
next
  case (Suc m)
  have "smul C (Suc m) (smul C n Q) = point_add C (smul C n Q) (smul C (m * n) Q)"
    by (simp add: Suc.IH)
  also have "\<dots> = smul C (n + m * n) Q"
    by (rule smul_add [OF assms, symmetric])
  finally show ?case by simp
qed

lemma smul_commute:
  assumes "group_law C" "on_curve C Q"
  shows "smul C a (smul C b Q) = smul C b (smul C a Q)"
  by (simp only: smul_smul [OF assms] mult.commute [of a b])

text \<open>
  Claim C4. For every two valid key pairs A and B of the curve,
  \<open>computeSharedSecret(A.private, B.public)\<close> equals
  \<open>computeSharedSecret(B.private, A.public)\<close>: each side is the representation of the same
  point, the base point multiplied by both private scalars.
\<close>

theorem computeSharedSecret_commutes:
  assumes "group_law C"
    and "implements_ECDH P C R"
    and "ECDH_key_pair C R a_private a_public"
    and "ECDH_key_pair C R b_private b_public"
  shows "computeSharedSecret P a_private b_public = computeSharedSecret P b_private a_public"
proof -
  from assms(3) obtain a where
    a: "scalar_of R a_private = Some a" "point_of R a_public = Some (smul C a (generator C))"
    by (auto simp: ECDH_key_pair_def split: option.splits)
  from assms(4) obtain b where
    b: "scalar_of R b_private = Some b" "point_of R b_public = Some (smul C b (generator C))"
    by (auto simp: ECDH_key_pair_def split: option.splits)
  from assms(1) have g: "on_curve C (generator C)"
    by (simp add: group_law_def)
  from assms(2) a(1) b(2) have
    "computeSharedSecret P a_private b_public
       = Inr (x_bytes C (smul C a (smul C b (generator C))))"
    unfolding implements_ECDH_def computeSharedSecret_def by blast
  moreover from assms(2) b(1) a(2) have
    "computeSharedSecret P b_private a_public
       = Inr (x_bytes C (smul C b (smul C a (generator C))))"
    unfolding implements_ECDH_def computeSharedSecret_def by blast
  ultimately show ?thesis
    by (simp only: smul_commute [OF assms(1) g, of a b])
qed

subsection \<open>The small platform's curve\<close>

lemma toy_curve_simps:
  "point_add toy_curve x y = (x + y) mod 251"
  "infinity toy_curve = 0"
  "generator toy_curve = 7"
  "on_curve toy_curve q \<longleftrightarrow> q < 251"
  "x_bytes toy_curve q = replicate 31 0 @ [of_nat q]"
  by (simp_all add: toy_curve_def)

lemma toy_group_law: "group_law toy_curve"
  unfolding group_law_def toy_curve_simps
  by (simp add: mod_simps add.assoc)

lemma toy_smul: "smul toy_curve d q = d * q mod 251"
  by (induction d) (simp_all add: toy_curve_simps mod_simps)

lemma toy_implements_ECDH: "implements_ECDH toy toy_curve toy_contents"
proof -
  have "deriveBits_ECDH toy pub priv 256 = Inr (x_bytes toy_curve (smul toy_curve d q))"
    if "toy_scalar_of priv = Some d" "toy_point_of pub = Some q" for priv pub d q
    using that
    by (cases priv; cases pub)
      (simp_all add: toy_simps toy_smul toy_curve_simps split: if_splits)
  then show ?thesis
    by (simp add: implements_ECDH_def toy_contents_def)
qed

lemma toy_key_pair:
  "ECDH_key_pair toy_curve toy_contents (ECDH_private 3) (ECDH_public 21)"
  "ECDH_key_pair toy_curve toy_contents (ECDH_private 5) (ECDH_public 35)"
  by (simp_all add: ECDH_key_pair_def toy_contents_def toy_smul toy_curve_simps)

theorem computeSharedSecret_commutes_witness:
  "group_law toy_curve \<and> implements_ECDH toy toy_curve toy_contents
   \<and> ECDH_key_pair toy_curve toy_contents (ECDH_private 3) (ECDH_public 21)
   \<and> ECDH_key_pair toy_curve toy_contents (ECDH_private 5) (ECDH_public 35)
   \<and> computeSharedSecret toy (ECDH_private 3) (ECDH_public 35)
       = computeSharedSecret toy (ECDH_private 5) (ECDH_public 21)
   \<and> computeSharedSecret toy (ECDH_private 3) (ECDH_public 35)
       = Inr (replicate 31 0 @ [105])"
proof -
  have v: "computeSharedSecret toy (ECDH_private 3) (ECDH_public 35)
      = Inr (replicate 31 0 @ [105])"
    by (simp add: toy_shared)
  from computeSharedSecret_commutes [OF toy_group_law toy_implements_ECDH toy_key_pair]
    toy_group_law toy_implements_ECDH toy_key_pair v
  show ?thesis by blast
qed

end
